theory Spec2Isabelle
  imports Main "HOL-Library.Char_ord" "HOL-Library.List_Lexorder"
begin

section \<open>JavaScript values\<close>

text \<open>
  The values the helper handles: what \<open>JSON.parse\<close> produces, plus \<open>undefined\<close>
  (the result of reading a property that is not there). A string is a list of
  code units, kept below 256 here; a number is an integer (the fragment of
  JSON numbers without fraction or exponent). An object is the list of its own
  properties in the order \<open>Object.keys\<close> and \<open>JSON.stringify\<close> enumerate them.
\<close>

datatype jsval =
    JUndefined
  | JNull
  | JBool bool
  | JNum int
  | JStr string
  | JArr "jsval list"
  | JObj "(string \<times> jsval) list"

text \<open>ToBoolean, as applied by \<open>if (x)\<close>, \<open>!x\<close>, \<open>x && y\<close> and \<open>x ? a : b\<close>.\<close>

fun truthy :: "jsval \<Rightarrow> bool" where
  "truthy JUndefined = False"
| "truthy JNull = False"
| "truthy (JBool b) = b"
| "truthy (JNum n) = (n \<noteq> 0)"
| "truthy (JStr s) = (s \<noteq> [])"
| "truthy (JArr _) = True"
| "truthy (JObj _) = True"

text \<open>What the code can throw, or reject a promise with.\<close>

datatype thrown =
    ExitCode int
  | TypeError
  | SyntaxError
  | ENOENT string

subsection \<open>Decimal numerals\<close>

definition is_digit :: "char \<Rightarrow> bool" where
  "is_digit c = (CHR ''0'' \<le> c \<and> c \<le> CHR ''9'')"

definition digit_val :: "char \<Rightarrow> nat" where
  "digit_val c = of_char c - 48"

definition digit_char :: "nat \<Rightarrow> char" where
  "digit_char d = ''0123456789'' ! d"

definition read_nat :: "string \<Rightarrow> nat" where
  "read_nat s = foldl (\<lambda>n c. 10 * n + digit_val c) 0 s"

fun show_nat :: "nat \<Rightarrow> string" where
  "show_nat n = (if n < 10 then [digit_char n] else show_nat (n div 10) @ [digit_char (n mod 10)])"

declare show_nat.simps [simp del]

definition show_int :: "int \<Rightarrow> string" where
  "show_int i = (if i < 0 then ''-'' @ show_nat (nat (- i)) else show_nat (nat i))"

subsection \<open>Own properties and their order\<close>

text \<open>
  An array index is a canonical numeric string below \<open>2^32 - 1\<close>. The own keys
  of an ordinary object are enumerated array indices first, in ascending
  numeric order, then the other string keys in the order they were created
  (OrdinaryOwnPropertyKeys).
\<close>

definition array_index :: "string \<Rightarrow> nat option" where
  "array_index k =
     (if k \<noteq> [] \<and> list_all is_digit k \<and> show_nat (read_nat k) = k \<and> read_nat k < 4294967295
      then Some (read_nat k) else None)"

text \<open>\<open>goes_before k k'\<close>: a new key \<open>k\<close> is enumerated before the existing key \<open>k'\<close>.\<close>

definition goes_before :: "string \<Rightarrow> string \<Rightarrow> bool" where
  "goes_before k k' =
     (case array_index k of
        None \<Rightarrow> False
      | Some i \<Rightarrow> (case array_index k' of None \<Rightarrow> True | Some j \<Rightarrow> i < j))"

fun insert_key :: "string \<Rightarrow> jsval \<Rightarrow> (string \<times> jsval) list \<Rightarrow> (string \<times> jsval) list" where
  "insert_key k v [] = [(k, v)]"
| "insert_key k v (p # ps) =
     (if goes_before k (fst p) then (k, v) # p # ps else p # insert_key k v ps)"

text \<open>
  CreateDataProperty: an existing own property keeps its place and takes the
  new value; a new one is put where the enumeration order has it.
\<close>

definition define_prop :: "string \<Rightarrow> jsval \<Rightarrow> (string \<times> jsval) list \<Rightarrow> (string \<times> jsval) list" where
  "define_prop k v ps =
     (if k \<in> fst ` set ps then map (\<lambda>p. if fst p = k then (k, v) else p) ps
      else insert_key k v ps)"

text \<open>
  The assignment \<open>obj[k] = v\<close> on an ordinary object whose prototype chain ends
  in \<open>Object.prototype\<close>. The one inherited setter is \<open>__proto__\<close>: assigning to
  it, when the object has no own property of that name, changes the prototype
  (or does nothing) and creates no own property.
\<close>

definition proto_key :: string where
  "proto_key = ''__proto__''"

definition assign_prop :: "string \<Rightarrow> jsval \<Rightarrow> (string \<times> jsval) list \<Rightarrow> (string \<times> jsval) list" where
  "assign_prop k v ps =
     (if k = proto_key \<and> k \<notin> fst ` set ps then ps else define_prop k v ps)"

text \<open>
  The place of a key in the enumeration: an array index by its number, every
  other key after all of them. \<open>canonical_keys\<close> holds of a key list that is
  in enumeration order and whose keys that are not array indices are in
  ascending order of their code units.
\<close>

definition key_rank :: "string \<Rightarrow> nat" where
  "key_rank k = (case array_index k of Some i \<Rightarrow> i | None \<Rightarrow> 4294967295)"

definition canonical_keys :: "string list \<Rightarrow> bool" where
  "canonical_keys ks =
     (distinct ks \<and> sorted (map key_rank ks) \<and> sorted (filter (\<lambda>k. array_index k = None) ks))"

text \<open>
  \<open>Object.keys(x)\<close> and \<open>x[k]\<close> for \<open>x\<close> other than \<open>null\<close> and \<open>undefined\<close>
  (for which both throw a TypeError: the callers test for them first). A
  string has its code units as indexed properties, an array its elements;
  \<open>own_prop\<close> is read at own keys and at names that \<open>Object.prototype\<close> does
  not define.
\<close>

fun own_keys :: "jsval \<Rightarrow> string list" where
  "own_keys (JObj ps) = map fst ps"
| "own_keys (JArr xs) = map show_nat [0 ..< length xs]"
| "own_keys (JStr s) = map show_nat [0 ..< length s]"
| "own_keys _ = []"

fun own_prop :: "jsval \<Rightarrow> string \<Rightarrow> jsval" where
  "own_prop (JObj ps) k = (case map_of ps k of Some v \<Rightarrow> v | None \<Rightarrow> JUndefined)"
| "own_prop (JArr xs) k =
     (case array_index k of
        Some i \<Rightarrow> if i < length xs then xs ! i else JUndefined
      | None \<Rightarrow> if k = ''length'' then JNum (int (length xs)) else JUndefined)"
| "own_prop (JStr s) k =
     (case array_index k of
        Some i \<Rightarrow> if i < length s then JStr [s ! i] else JUndefined
      | None \<Rightarrow> if k = ''length'' then JNum (int (length s)) else JUndefined)"
| "own_prop _ k = JUndefined"

section \<open>sortObject\<close>

text \<open>
  \<^verbatim>\<open>function sortObject(object) {
    const sortedObject = {}
    Object.keys(object).sort().forEach(item => { sortedObject[item] = object[item] })
    return sortedObject
  }\<close>
  \<open>sort()\<close> without a comparator orders strings by their code units.
\<close>

definition sortObject :: "jsval \<Rightarrow> thrown + jsval" where
  "sortObject object =
     (if object = JUndefined \<or> object = JNull then Inl TypeError
      else Inr (JObj (fold (\<lambda>item sortedObject. assign_prop item (own_prop object item) sortedObject)
                       (sort (own_keys object)) [])))"

section \<open>JSON text\<close>

subsection \<open>\<open>JSON.stringify(value, null, 2)\<close>\<close>

definition hex_digit :: "nat \<Rightarrow> char" where
  "hex_digit d = ''0123456789abcdef'' ! d"

definition quote_char :: "char \<Rightarrow> string" where
  "quote_char c =
     (if c = CHR 0x22 then [CHR 0x5C, CHR 0x22]
      else if c = CHR 0x5C then [CHR 0x5C, CHR 0x5C]
      else if c = CHR 0x08 then [CHR 0x5C, CHR ''b'']
      else if c = CHR 0x09 then [CHR 0x5C, CHR ''t'']
      else if c = CHR 0x0A then [CHR 0x5C, CHR ''n'']
      else if c = CHR 0x0C then [CHR 0x5C, CHR ''f'']
      else if c = CHR 0x0D then [CHR 0x5C, CHR ''r'']
      else if (of_char c :: nat) < 32
        then [CHR 0x5C, CHR ''u'', CHR ''0'', CHR ''0'',
              hex_digit ((of_char c :: nat) div 16), hex_digit ((of_char c :: nat) mod 16)]
      else [c])"

definition QuoteJSONString :: "string \<Rightarrow> string" where
  "QuoteJSONString s = [CHR 0x22] @ concat (map quote_char s) @ [CHR 0x22]"

fun join_with :: "string \<Rightarrow> string list \<Rightarrow> string" where
  "join_with sep [] = []"
| "join_with sep [x] = x"
| "join_with sep (x # y # ys) = x @ sep @ join_with sep (y # ys)"

text \<open>
  SerializeJSONProperty at the indentation \<open>ind\<close>, with the gap of two spaces:
  \<open>None\<close> is \<open>undefined\<close>, for which an object leaves the property out and an
  array writes \<open>null\<close>.
\<close>

fun ser :: "string \<Rightarrow> jsval \<Rightarrow> string option" where
  "ser ind JUndefined = None"
| "ser ind JNull = Some ''null''"
| "ser ind (JBool b) = Some (if b then ''true'' else ''false'')"
| "ser ind (JNum n) = Some (show_int n)"
| "ser ind (JStr s) = Some (QuoteJSONString s)"
| "ser ind (JArr xs) =
     Some (if xs = [] then ''[]''
           else ''[\<newline>'' @ ind @ ''  ''
                @ join_with ('',\<newline>'' @ ind @ ''  '')
                    (map (\<lambda>x. case ser (ind @ ''  '') x of None \<Rightarrow> ''null'' | Some t \<Rightarrow> t) xs)
                @ ''\<newline>'' @ ind @ '']'')"
| "ser ind (JObj ps) =
     (let members =
            concat (map (\<lambda>p. case ser (ind @ ''  '') (snd p) of
                                None \<Rightarrow> []
                              | Some t \<Rightarrow> [QuoteJSONString (fst p) @ '': '' @ t]) ps)
      in Some (if members = [] then ''{}''
               else ''{\<newline>'' @ ind @ ''  ''
                    @ join_with ('',\<newline>'' @ ind @ ''  '') members
                    @ ''\<newline>'' @ ind @ ''}''))"

text \<open>
  \<open>JSON.stringify(v, null, 2) + '\n'\<close>: at the top level \<open>undefined\<close> is returned
  for \<open>undefined\<close>, and the concatenation turns it into the text \<open>undefined\<close>.
\<close>

definition stringify_line :: "jsval \<Rightarrow> string" where
  "stringify_line v = (case ser [] v of None \<Rightarrow> ''undefined'' | Some t \<Rightarrow> t) @ ''\<newline>''"

subsection \<open>\<open>JSON.parse\<close>\<close>

text \<open>
  A recursive-descent reader of the JSON grammar on code units below 256 and
  numbers without fraction or exponent. \<open>None\<close> is a SyntaxError. Where a
  function continues after a nested value it first checks that the input has
  become shorter, which makes the recursion well-founded; the check never
  fails (\<open>parse_elements_unguarded\<close>, \<open>parse_members_unguarded\<close> below).
\<close>

definition is_ws :: "char \<Rightarrow> bool" where
  "is_ws c = (c = CHR 0x20 \<or> c = CHR 0x09 \<or> c = CHR 0x0A \<or> c = CHR 0x0D)"

definition skip_ws :: "string \<Rightarrow> string" where
  "skip_ws cs = dropWhile is_ws cs"

definition hex_val :: "char \<Rightarrow> nat option" where
  "hex_val c =
     (if CHR ''0'' \<le> c \<and> c \<le> CHR ''9'' then Some (of_char c - 48)
      else if CHR ''a'' \<le> c \<and> c \<le> CHR ''f'' then Some (of_char c - 87)
      else if CHR ''A'' \<le> c \<and> c \<le> CHR ''F'' then Some (of_char c - 55)
      else None)"

definition unescape :: "char \<Rightarrow> char option" where
  "unescape e =
     (if e = CHR 0x22 then Some (CHR 0x22)
      else if e = CHR 0x5C then Some (CHR 0x5C)
      else if e = CHR ''/'' then Some (CHR ''/'')
      else if e = CHR ''b'' then Some (CHR 0x08)
      else if e = CHR ''f'' then Some (CHR 0x0C)
      else if e = CHR ''n'' then Some (CHR 0x0A)
      else if e = CHR ''r'' then Some (CHR 0x0D)
      else if e = CHR ''t'' then Some (CHR 0x09)
      else None)"

text \<open>The characters of a string literal after its opening quote, and the rest.\<close>

fun parse_chars :: "string \<Rightarrow> (string \<times> string) option" where
  "parse_chars [] = None"
| "parse_chars (c # cs) =
     (if c = CHR 0x22 then Some ([], cs)
      else if c = CHR 0x5C then
        (case cs of
           [] \<Rightarrow> None
         | e # r \<Rightarrow>
             if e = CHR ''u'' then
               (case r of
                  a # b # x # y # r' \<Rightarrow>
                    (case (hex_val a, hex_val b, hex_val x, hex_val y) of
                       (Some 0, Some 0, Some h, Some l) \<Rightarrow>
                         map_option (\<lambda>(t, u). (char_of (16 * h + l) # t, u)) (parse_chars r')
                     | _ \<Rightarrow> None)
                | _ \<Rightarrow> None)
             else
               (case unescape e of
                  None \<Rightarrow> None
                | Some d \<Rightarrow> map_option (\<lambda>(t, u). (d # t, u)) (parse_chars r)))
      else if (of_char c :: nat) < 32 then None
      else map_option (\<lambda>(t, u). (c # t, u)) (parse_chars cs))"

text \<open>A number: an optional minus sign, then \<open>0\<close> or digits that do not start with \<open>0\<close>.\<close>

definition parse_number :: "string \<Rightarrow> (jsval \<times> string) option" where
  "parse_number cs =
     (let neg = (cs \<noteq> [] \<and> hd cs = CHR ''-'');
          ds = (if neg then tl cs else cs);
          digits = (if ds \<noteq> [] \<and> hd ds = CHR ''0'' then ''0'' else takeWhile is_digit ds)
      in if digits = [] then None
         else Some (JNum (if neg then - int (read_nat digits) else int (read_nat digits)),
                    drop (length digits) ds))"

function parse_value :: "string \<Rightarrow> (jsval \<times> string) option"
  and parse_elements :: "jsval list \<Rightarrow> string \<Rightarrow> (jsval \<times> string) option"
  and parse_members :: "(string \<times> jsval) list \<Rightarrow> string \<Rightarrow> (jsval \<times> string) option"
where
  "parse_value cs =
     (case skip_ws cs of
        [] \<Rightarrow> None
      | c # r \<Rightarrow>
          if c = CHR ''{'' then
            (case skip_ws r of
               [] \<Rightarrow> None
             | d # r' \<Rightarrow> if d = CHR ''}'' then Some (JObj [], r') else parse_members [] (d # r'))
          else if c = CHR ''['' then
            (case skip_ws r of
               [] \<Rightarrow> None
             | d # r' \<Rightarrow> if d = CHR '']'' then Some (JArr [], r') else parse_elements [] (d # r'))
          else if c = CHR 0x22 then map_option (\<lambda>(t, u). (JStr t, u)) (parse_chars r)
          else if take 4 (c # r) = ''true'' then Some (JBool True, drop 4 (c # r))
          else if take 5 (c # r) = ''false'' then Some (JBool False, drop 5 (c # r))
          else if take 4 (c # r) = ''null'' then Some (JNull, drop 4 (c # r))
          else parse_number (c # r))"
| "parse_elements acc cs =
     (case parse_value cs of
        None \<Rightarrow> None
      | Some (v, r) \<Rightarrow>
          (case skip_ws r of
             [] \<Rightarrow> None
           | d # r' \<Rightarrow>
               if d = CHR '','' then (if length r' < length cs then parse_elements (acc @ [v]) r' else None)
               else if d = CHR '']'' then Some (JArr (acc @ [v]), r')
               else None))"
| "parse_members acc cs =
     (case skip_ws cs of
        [] \<Rightarrow> None
      | q # r \<Rightarrow>
          if q \<noteq> CHR 0x22 then None
          else
            (case parse_chars r of
               None \<Rightarrow> None
             | Some (k, r1) \<Rightarrow>
                 (case skip_ws r1 of
                    [] \<Rightarrow> None
                  | colon # r2 \<Rightarrow>
                      if colon \<noteq> CHR '':'' then None
                      else
                        (case parse_value r2 of
                           None \<Rightarrow> None
                         | Some (v, r3) \<Rightarrow>
                             (case skip_ws r3 of
                                [] \<Rightarrow> None
                              | d # r4 \<Rightarrow>
                                  if d = CHR '','' then
                                    (if length r4 < length cs then parse_members (define_prop k v acc) r4 else None)
                                  else if d = CHR ''}'' then Some (JObj (define_prop k v acc), r4)
                                  else None)))))"
  by pat_completeness auto
termination
proof -
  have ws: "length r < length cs" if "skip_ws cs = c # r" for cs c r
    using that length_dropWhile_le [of is_ws cs] by (simp add: skip_ws_def)
  have chars: "length r < length cs" if "parse_chars cs = Some (t, r)" for cs t r
    using that
  proof (induction "length cs" arbitrary: cs t r rule: less_induct)
    case less
    show ?case
    proof (cases cs)
      case Nil
      with less.prems show ?thesis by simp
    next
      case (Cons c cs')
      have step: "parse_chars x = Some (u, r) \<Longrightarrow> length x \<le> length cs' \<Longrightarrow> length r < length cs" for x u
        using less.hyps [of x u r] Cons by simp
      from less.prems Cons show ?thesis
        by (auto split: if_splits list.splits option.splits prod.splits nat.splits dest!: step)
    qed
  qed
  show ?thesis
    by (relation "measure (\<lambda>x. case x of Inl cs \<Rightarrow> 2 * length cs
                                    | Inr (Inl (acc, cs)) \<Rightarrow> 2 * length cs + 1
                                    | Inr (Inr (acc, cs)) \<Rightarrow> 2 * length cs + 1)")
       (auto dest!: ws chars)
qed

declare parse_value.simps [simp del] parse_elements.simps [simp del] parse_members.simps [simp del]

definition JSON_parse :: "string \<Rightarrow> thrown + jsval" where
  "JSON_parse text =
     (case parse_value text of
        None \<Rightarrow> Inl SyntaxError
      | Some (v, r) \<Rightarrow> if skip_ws r = [] then Inr v else Inl SyntaxError)"

section \<open>The host: paths, files, console, child processes\<close>

subsection \<open>\<open>path.join\<close> (POSIX)\<close>

fun split_slash :: "string \<Rightarrow> string list" where
  "split_slash [] = [[]]"
| "split_slash (c # cs) =
     (if c = CHR ''/'' then [] # split_slash cs
      else (case split_slash cs of [] \<Rightarrow> [[c]] | seg # segs \<Rightarrow> (c # seg) # segs))"

text \<open>
  The segments of a path, normalised: empty segments and \<open>.\<close> are dropped,
  \<open>..\<close> removes the segment before it, or is kept when there is none to
  remove and the path is relative (\<open>allowAbove\<close>).
\<close>

fun normalize_segments :: "bool \<Rightarrow> string list \<Rightarrow> string list \<Rightarrow> string list" where
  "normalize_segments allowAbove res [] = res"
| "normalize_segments allowAbove res (seg # segs) =
     (if seg = [] \<or> seg = ''.'' then normalize_segments allowAbove res segs
      else if seg = ''..'' then
        (if res \<noteq> [] \<and> last res \<noteq> ''..'' then normalize_segments allowAbove (butlast res) segs
         else if allowAbove then normalize_segments allowAbove (res @ [''..'']) segs
         else normalize_segments allowAbove res segs)
      else normalize_segments allowAbove (res @ [seg]) segs)"

definition path_normalize :: "string \<Rightarrow> string" where
  "path_normalize p =
     (if p = [] then ''.''
      else
        let isAbsolute = (hd p = CHR ''/'');
            trailingSeparator = (last p = CHR ''/'');
            body = join_with ''/'' (normalize_segments (\<not> isAbsolute) [] (split_slash p))
        in if body = [] then (if isAbsolute then ''/'' else if trailingSeparator then ''./'' else ''.'')
           else (if isAbsolute then ''/'' else []) @ body @ (if trailingSeparator then ''/'' else []))"

definition path_join :: "string list \<Rightarrow> string" where
  "path_join args =
     (let joined = join_with ''/'' (filter (\<lambda>a. a \<noteq> []) args)
      in if joined = [] then ''.'' else path_normalize joined)"

subsection \<open>The world the helper acts on\<close>

text \<open>
  \<open>disk\<close> maps a path to the content of the file there; \<open>writes\<close> records each
  \<open>fs.writeFileSync\<close> call, \<open>console\<close> each \<open>console.log\<close> call with its arguments,
  \<open>spawned\<close> each child process started (command, arguments, working
  directory). \<open>child_exit\<close> is the code a child reports in its \<open>exit\<close> event:
  a number, or \<open>null\<close> (\<open>None\<close>) when a signal ended it. \<open>proc_cwd\<close> is
  \<open>process.cwd()\<close>.
\<close>

datatype log_arg = Str string | Val thrown

record world =
  disk :: "string \<rightharpoonup> string"
  writes :: "(string \<times> string) list"
  console :: "log_arg list list"
  spawned :: "(string \<times> string list \<times> string) list"
  child_exit :: "string \<times> string list \<times> string \<Rightarrow> int option"
  proc_cwd :: string

text \<open>
  How a call ends: it returns (an async function's promise resolves), it
  throws (the promise rejects), or \<open>process.exit\<close> has ended the host process.
\<close>

datatype outcome = Done | Throw thrown | Exit int

definition console_log :: "log_arg list \<Rightarrow> world \<Rightarrow> world" where
  "console_log args w = w\<lparr>console := console w @ [args]\<rparr>"

definition readFileSync :: "string \<Rightarrow> world \<Rightarrow> thrown + string" where
  "readFileSync file w = (case disk w file of None \<Rightarrow> Inl (ENOENT file) | Some content \<Rightarrow> Inr content)"

definition writeFileSync :: "string \<Rightarrow> string \<Rightarrow> world \<Rightarrow> world" where
  "writeFileSync file content w =
     w\<lparr>disk := (disk w)(file \<mapsto> content), writes := writes w @ [(file, content)]\<rparr>"

text \<open>ToString, as a template literal applies it to \<open>${x}\<close>.\<close>

fun to_string :: "jsval \<Rightarrow> string" where
  "to_string JUndefined = ''undefined''"
| "to_string JNull = ''null''"
| "to_string (JBool b) = (if b then ''true'' else ''false'')"
| "to_string (JNum n) = show_int n"
| "to_string (JStr s) = s"
| "to_string (JArr xs) =
     join_with '','' (map (\<lambda>x. if x = JUndefined \<or> x = JNull then [] else to_string x) xs)"
| "to_string (JObj ps) = ''[object Object]''"

section \<open>The questionnaire's data\<close>

text \<open>
  The fields of \<open>data\<close> that \<open>src/utils/index.js\<close> reads. \<open>preset_lint\<close> is
  \<open>data.preset.lint\<close> (read by \<open>runLintFix\<close>); \<open>lint\<close> is the top-level
  \<open>data.lint\<close> (read by \<open>lintMsg\<close>), a different property of the object.
\<close>

record config =
  inPlace :: bool
  destDirName :: string
  autoInstall :: jsval
  lintConfig :: jsval
  preset_lint :: bool
  lint :: jsval

definition lintStyles :: "string list" where
  "lintStyles = [''prettier'', ''standard'', ''airbnb'']"

text \<open>
  \<open>lintStyles.indexOf(x) !== -1\<close>: \<open>indexOf\<close> compares with \<open>===\<close>, so only a
  string equal to one of the entries is found.
\<close>

fun isLintStyle :: "jsval \<Rightarrow> bool" where
  "isLintStyle (JStr s) = (s \<in> set lintStyles)"
| "isLintStyle _ = False"

definition lintMsg :: "config \<Rightarrow> string" where
  "lintMsg data =
     (if \<not> truthy (autoInstall data) \<and> truthy (lint data) \<and> isLintStyle (lintConfig data)
      then ''npm run lint -- --fix (or for yarn: yarn run lint --fix)\<newline>  ''
      else '''')"

definition installMsg :: "config \<Rightarrow> string" where
  "installMsg data =
     (if \<not> truthy (autoInstall data) then ''npm install (or if using yarn: yarn)\<newline>  '' else '''')"

text \<open>The colour functions of \<open>chalk\<close> that the helper calls.\<close>

record chalk =
  green :: "string \<Rightarrow> string"
  yellow :: "string \<Rightarrow> string"
  red :: "string \<Rightarrow> string"

section \<open>\<open>src/utils/index.js\<close>\<close>

definition starredLog :: "(string \<Rightarrow> string) \<Rightarrow> string \<Rightarrow> world \<Rightarrow> world" where
  "starredLog color message w =
     console_log [Str (''\<newline>\<newline> '' @ color (''[*] '' @ message) @ ''\<newline>\<newline>'')] w"

text \<open>
  Lines 26 to 36 of \<open>sortDependencies\<close>, on the parsed manifest: each of the
  two statements
  \<^verbatim>\<open>if (pkg.f) { sorted = true; pkg.f = sortObject(pkg.f) }\<close>
  and the flag \<open>sorted\<close> they leave. Reading a property of \<open>null\<close> throws.
\<close>

fun set_prop :: "jsval \<Rightarrow> string \<Rightarrow> jsval \<Rightarrow> jsval" where
  "set_prop (JObj ps) k v = JObj (assign_prop k v ps)"
| "set_prop x k v = x"

definition sort_field :: "string \<Rightarrow> bool \<times> jsval \<Rightarrow> thrown + bool \<times> jsval" where
  "sort_field f s =
     (if truthy (own_prop (snd s) f) then
        (case sortObject (own_prop (snd s) f) of
           Inl e \<Rightarrow> Inl e
         | Inr sortedObject \<Rightarrow> Inr (True, set_prop (snd s) f sortedObject))
      else Inr s)"

definition sort_fields :: "jsval \<Rightarrow> thrown + bool \<times> jsval" where
  "sort_fields pkg =
     (if pkg = JNull \<or> pkg = JUndefined then Inl TypeError
      else
        (case sort_field ''dependencies'' (False, pkg) of
           Inl e \<Rightarrow> Inl e
         | Inr s \<Rightarrow> sort_field ''devDependencies'' s))"

definition pkgFile :: "config \<Rightarrow> string" where
  "pkgFile data = path_join [if inPlace data then [] else destDirName data, ''package.json'']"

definition sortDependencies :: "config \<Rightarrow> world \<Rightarrow> outcome \<times> world" where
  "sortDependencies data w =
     (case readFileSync (pkgFile data) w of
        Inl e \<Rightarrow> (Throw e, w)
      | Inr content \<Rightarrow>
          (case JSON_parse content of
             Inl e \<Rightarrow> (Throw e, w)
           | Inr pkg \<Rightarrow>
               (case sort_fields pkg of
                  Inl e \<Rightarrow> (Throw e, w)
                | Inr (wasSorted, pkg') \<Rightarrow>
                    if wasSorted then (Done, writeFileSync (pkgFile data) (stringify_line pkg') w)
                    else (Done, w))))"

text \<open>
  \<open>runCommand\<close>: \<open>spawn\<close> rejects a command that is not a non-empty string with
  a TypeError, thrown inside the promise's executor and so a rejection. The
  options are \<open>{cwd, stdio, shell}\<close> with the caller's \<open>cwd\<close>, when given, in
  place of \<open>process.cwd()\<close>. The \<open>exit\<close> listener rejects with the code when
  \<open>if (code)\<close> holds and resolves otherwise.
\<close>

definition runCommand :: "jsval \<Rightarrow> string list \<Rightarrow> string option \<Rightarrow> world \<Rightarrow> outcome \<times> world" where
  "runCommand cmd args options_cwd w =
     (case cmd of
        JStr c \<Rightarrow>
          if c = [] then (Throw TypeError, w)
          else
            let dir = (case options_cwd of None \<Rightarrow> proc_cwd w | Some d \<Rightarrow> d);
                w' = w\<lparr>spawned := spawned w @ [(c, args, dir)]\<rparr>
            in (case child_exit w (c, args, dir) of
                  None \<Rightarrow> (Done, w')
                | Some code \<Rightarrow> if code \<noteq> 0 then (Throw (ExitCode code), w') else (Done, w'))
      | _ \<Rightarrow> (Throw TypeError, w))"

text \<open>The parameter default \<open>executable = 'npm'\<close> applies to \<open>undefined\<close>.\<close>

definition installDependencies ::
  "string \<Rightarrow> jsval \<Rightarrow> (string \<Rightarrow> string) \<Rightarrow> world \<Rightarrow> outcome \<times> world" where
  "installDependencies cwd executable0 color w =
     (let executable = (if executable0 = JUndefined then JStr ''npm'' else executable0);
          w1 = starredLog color ''Installing project dependencies...'' w
      in case runCommand executable [''install''] (Some cwd) w1 of
           (Throw e, w2) \<Rightarrow>
             (Exit 1,
              console_log []
                (console_log [Str '' Please try again later...'']
                  (console_log [Str ('' '' @ to_string executable
                                     @ '' install FAILED... Possible temporary npm registry issues?'')]
                    (console_log [] w2))))
         | r \<Rightarrow> r)"

definition lint_args :: "jsval \<Rightarrow> string list" where
  "lint_args installer =
     (if installer = JStr ''npm'' then [''run'', ''lint'', ''--'', ''--fix'']
      else [''run'', ''lint'', ''--fix''])"

definition runLintFix :: "string \<Rightarrow> config \<Rightarrow> (string \<Rightarrow> string) \<Rightarrow> world \<Rightarrow> outcome \<times> world" where
  "runLintFix cwd data color w =
     (if preset_lint data \<and> isLintStyle (lintConfig data) then
        (let w1 = starredLog color ''Running eslint --fix to comply with chosen preset rules...'' w;
             args = lint_args (autoInstall data)
         in case runCommand (autoInstall data) args (Some cwd) w1 of
              (Throw e, w2) \<Rightarrow>
                (Done,
                 console_log []
                   (console_log [Str '' Please try again later...'']
                     (console_log [Str ('' '' @ to_string (autoInstall data) @ '' lint FAILED...'')]
                       (console_log [] w2))))
            | r \<Rightarrow> r)
      else (Done, w))"

definition message :: "config \<Rightarrow> chalk \<Rightarrow> string" where
  "message data ch =
     ''\<newline> '' @ green ch ''[*] Quasar Project initialization finished!''
     @ ''\<newline>\<newline>To get started:\<newline>\<newline>  ''
     @ yellow ch ((if inPlace data then [] else ''cd '' @ destDirName data @ ''\<newline>  '')
                  @ installMsg data @ lintMsg data @ ''quasar dev'')
     @ ''\<newline>\<newline>Documentation can be found at: https://quasar.dev\<newline>''
     @ ''\<newline>Quasar is relying on donations to evolve. We'' @ [CHR 0x27]
     @ ''d be very grateful if you can\<newline>''
     @ ''read our manifest on '' @ [CHR 0x22] @ ''Why donations are important'' @ [CHR 0x22]
     @ '': https://quasar.dev/why-donate\<newline>''
     @ ''Donation campaign: https://donate.quasar.dev\<newline>''
     @ ''Any amount is very welcomed.\<newline>''
     @ ''If invoices are required, please first contact razvan@quasar.dev\<newline>''
     @ ''\<newline>Please give us a star on Github if you appreciate our work:\<newline>''
     @ ''https://github.com/quasarframework/quasar\<newline>''
     @ ''\<newline>Enjoy! - Quasar Team\<newline>''"

definition printMessage :: "config \<Rightarrow> chalk \<Rightarrow> world \<Rightarrow> world" where
  "printMessage data ch w = console_log [Str (message data ch)] w"

text \<open>
  \<open>complete\<close>: \<open>sortDependencies\<close> is called before the \<open>try\<close> block; the block
  holds the install and the lint fix, its handler prints \<open>Error:\<close> and what was
  caught; \<open>printMessage\<close> follows the block.
\<close>

definition project_cwd :: "config \<Rightarrow> world \<Rightarrow> string" where
  "project_cwd data w = path_join [proc_cwd w, if inPlace data then [] else destDirName data]"

definition complete :: "config \<Rightarrow> chalk \<Rightarrow> world \<Rightarrow> outcome \<times> world" where
  "complete data ch w =
     (case sortDependencies data w of
        (Done, w1) \<Rightarrow>
          (let cwd = project_cwd data w1
           in case (if truthy (autoInstall data) then
                      (case installDependencies cwd (autoInstall data) (green ch) w1 of
                         (Done, w2) \<Rightarrow> runLintFix cwd data (green ch) w2
                       | r \<Rightarrow> r)
                    else (Done, w1)) of
                (Done, w3) \<Rightarrow> (Done, printMessage data ch w3)
              | (Throw e, w3) \<Rightarrow>
                  (Done, printMessage data ch (console_log [Str (red ch ''Error:''), Val e] w3))
              | (Exit n, w3) \<Rightarrow> (Exit n, w3))
      | r \<Rightarrow> r)"

section \<open>Concrete inputs\<close>

text \<open>
  A questionnaire result, colour functions that leave the text as it is, and
  a host that has printed, written and run nothing yet.
\<close>

definition plain_chalk :: chalk where
  "plain_chalk = \<lparr> green = id, yellow = id, red = id \<rparr>"

definition npm_data :: config where
  "npm_data = \<lparr> inPlace = False, destDirName = ''my-app'', autoInstall = JStr ''npm'',
                 lintConfig = JStr ''standard'', preset_lint = True, lint = JUndefined \<rparr>"

definition fresh_host :: "(string \<rightharpoonup> string) \<Rightarrow> (string \<times> string list \<times> string \<Rightarrow> int option) \<Rightarrow> world" where
  "fresh_host files exits =
     \<lparr> disk = files, writes = [], console = [], spawned = [], child_exit = exits,
       proc_cwd = ''/home/dev'' \<rparr>"

definition no_files :: "string \<rightharpoonup> string" where
  "no_files = Map.empty"

definition compact_manifest :: string where
  "compact_manifest = ''{\"dependencies\":{\"a\":\"1\"}}''"

definition project_files :: "string \<rightharpoonup> string" where
  "project_files = [''my-app/package.json'' \<mapsto> compact_manifest]"

text \<open>A manifest whose two dependencies have the names \<open>9\<close> and \<open>10\<close>.\<close>

definition numeric_manifest :: string where
  "numeric_manifest = ''{\"dependencies\":{\"9\":\"1.0.0\",\"10\":\"2.0.0\"}}''"

definition numeric_files :: "string \<rightharpoonup> string" where
  "numeric_files = [''my-app/package.json'' \<mapsto> numeric_manifest]"

text \<open>Children that all exit with 0; an install that exits with 2; a lint run that exits with 1.\<close>

definition all_exit_0 :: "string \<times> string list \<times> string \<Rightarrow> int option" where
  "all_exit_0 c = Some 0"

definition install_exits_2 :: "string \<times> string list \<times> string \<Rightarrow> int option" where
  "install_exits_2 c = (if fst (snd c) = [''install''] then Some 2 else Some 0)"

definition lint_exits_1 :: "string \<times> string list \<times> string \<Rightarrow> int option" where
  "lint_exits_1 c = (if fst (snd c) = [''install''] then Some 0 else Some 1)"

definition killed_by_signal :: "string \<times> string list \<times> string \<Rightarrow> int option" where
  "killed_by_signal c = None"

section \<open>The reader consumes its input\<close>

lemma skip_ws_length: "length (skip_ws cs) \<le> length cs"
  by (simp add: skip_ws_def length_dropWhile_le)

lemma skip_ws_Cons: "skip_ws cs = c # r \<Longrightarrow> length r < length cs"
  using skip_ws_length [of cs] by simp

lemma parse_chars_shorter: "parse_chars cs = Some (t, r) \<Longrightarrow> length r < length cs"
proof (induction "length cs" arbitrary: cs t r rule: less_induct)
  case less
  show ?case
  proof (cases cs)
    case Nil
    with less.prems show ?thesis by simp
  next
    case (Cons c cs')
    have step: "parse_chars x = Some (u, r) \<Longrightarrow> length x \<le> length cs' \<Longrightarrow> length r < length cs" for x u
      using less.hyps [of x u r] Cons by simp
    from less.prems Cons show ?thesis
      by (auto split: if_splits list.splits option.splits prod.splits nat.splits dest!: step)
  qed
qed

lemma parse_number_shorter: "parse_number cs = Some (v, r) \<Longrightarrow> length r < length cs"
  by (cases cs) (auto simp add: parse_number_def Let_def split: if_splits)

lemma parse_shorter:
  "parse_value cs = Some (v, r) \<Longrightarrow> length r < length cs"
  "parse_elements acc cs = Some (v, r) \<Longrightarrow> length r < length cs"
  "parse_members accm cs = Some (v, r) \<Longrightarrow> length r < length cs"
proof (induction cs and acc cs and accm cs arbitrary: v r and v r and v r rule: parse_value_parse_elements_parse_members.induct)
  case (1 cs)
  show ?case
  proof (cases "skip_ws cs")
    case Nil
    with "1.prems" show ?thesis by (simp add: parse_value.simps)
  next
    case (Cons c rest)
    note outer = Cons
    have a: "length rest < length cs" using skip_ws_Cons [OF Cons] .
    show ?thesis
    proof (cases "c = CHR ''{'' \<or> c = CHR ''[''")
      case False
      with "1.prems" outer a show ?thesis
        by (auto simp add: parse_value.simps split: if_splits dest!: parse_chars_shorter parse_number_shorter)
    next
      case True
      show ?thesis
      proof (cases "skip_ws rest")
        case Nil
        with "1.prems" outer True show ?thesis by (auto simp add: parse_value.simps)
      next
        case (Cons d rest')
        have b: "length rest' < length rest" using skip_ws_Cons [OF Cons] .
        show ?thesis
        proof (cases "c = CHR ''{''")
          case brace: True
          show ?thesis
          proof (cases "d = CHR ''}''")
            case True
            with "1.prems" outer Cons brace a b show ?thesis by (simp add: parse_value.simps)
          next
            case False
            with "1.prems" outer Cons brace have "parse_members [] (d # rest') = Some (v, r)"
              by (simp add: parse_value.simps)
            from "1.IH"(1) [OF outer brace Cons False this] a b show ?thesis by simp
          qed
        next
          case nobrace: False
          with True have bracket: "c = CHR ''[''" by simp
          show ?thesis
          proof (cases "d = CHR '']''")
            case True
            with "1.prems" outer Cons bracket a b show ?thesis by (simp add: parse_value.simps)
          next
            case False
            with "1.prems" outer Cons bracket have "parse_elements [] (d # rest') = Some (v, r)"
              by (simp add: parse_value.simps)
            from "1.IH"(2) [OF outer nobrace bracket Cons False this] a b show ?thesis by simp
          qed
        qed
      qed
    qed
  qed
next
  case (2 acc cs)
  from "2.prems" obtain v1 r1 where v1: "parse_value cs = Some (v1, r1)"
    by (subst (asm) parse_elements.simps) (auto split: option.splits)
  from "2.IH"(1) [OF v1] have a: "length r1 < length cs" .
  from "2.prems" v1 obtain d r' where sk: "skip_ws r1 = d # r'"
    and alt: "d = CHR '','' \<and> length r' < length cs \<and> parse_elements (acc @ [v1]) r' = Some (v, r)
              \<or> d = CHR '']'' \<and> r = r'"
    by (subst (asm) parse_elements.simps) (auto split: list.splits if_splits)
  from skip_ws_Cons [OF sk] have b: "length r' < length r1" .
  from alt show ?case
  proof
    assume c: "d = CHR '','' \<and> length r' < length cs \<and> parse_elements (acc @ [v1]) r' = Some (v, r)"
    then have "length r < length r'"
      using "2.IH"(2) [OF v1 refl sk] by blast
    with a b show ?thesis by simp
  next
    assume "d = CHR '']'' \<and> r = r'"
    with a b show ?thesis by simp
  qed
next
  case (3 acc cs)
  from "3.prems" obtain q r0 where s0: "skip_ws cs = q # r0" and q: "q = CHR 0x22"
    by (subst (asm) parse_members.simps) (auto split: list.splits if_splits)
  from "3.prems" s0 q obtain k r1 where pc: "parse_chars r0 = Some (k, r1)"
    by (subst (asm) parse_members.simps) (auto split: option.splits)
  from "3.prems" s0 q pc obtain colon r2 where s1: "skip_ws r1 = colon # r2" and colon: "colon = CHR '':''"
    by (subst (asm) parse_members.simps) (auto split: list.splits if_splits)
  from "3.prems" s0 q pc s1 colon obtain v3 r3 where pv3: "parse_value r2 = Some (v3, r3)"
    by (subst (asm) parse_members.simps) (auto split: option.splits)
  from "3.prems" s0 q pc s1 colon pv3 obtain d r4 where s3: "skip_ws r3 = d # r4"
    and alt: "d = CHR '','' \<and> length r4 < length cs \<and> parse_members (define_prop k v3 acc) r4 = Some (v, r)
              \<or> d = CHR ''}'' \<and> r = r4"
    by (subst (asm) parse_members.simps) (auto split: list.splits if_splits)
  have q': "\<not> q \<noteq> CHR 0x22" using q by simp
  have colon': "\<not> colon \<noteq> CHR '':''" using colon by simp
  have l: "length r4 < length cs"
    using skip_ws_Cons [OF s0] parse_chars_shorter [OF pc] skip_ws_Cons [OF s1]
      "3.IH"(1) [OF s0 q' pc refl s1 colon' pv3] skip_ws_Cons [OF s3]
    by simp
  from alt show ?case
  proof
    assume c: "d = CHR '','' \<and> length r4 < length cs \<and> parse_members (define_prop k v3 acc) r4 = Some (v, r)"
    then have "length r < length r4"
      using "3.IH"(2) [OF s0 q' pc refl s1 colon' pv3 refl s3] by blast
    with l show ?thesis by simp
  next
    assume "d = CHR ''}'' \<and> r = r4"
    with l show ?thesis by simp
  qed
qed

lemma parse_elements_unguarded:
  "parse_elements acc cs =
     (case parse_value cs of
        None \<Rightarrow> None
      | Some (v, r) \<Rightarrow>
          (case skip_ws r of
             [] \<Rightarrow> None
           | d # r' \<Rightarrow>
               if d = CHR '','' then parse_elements (acc @ [v]) r'
               else if d = CHR '']'' then Some (JArr (acc @ [v]), r')
               else None))"
  by (subst parse_elements.simps) (auto split: option.splits list.splits dest!: parse_shorter(1) skip_ws_Cons)

lemma parse_members_unguarded:
  "parse_members acc cs =
     (case skip_ws cs of
        [] \<Rightarrow> None
      | q # r \<Rightarrow>
          if q \<noteq> CHR 0x22 then None
          else
            (case parse_chars r of
               None \<Rightarrow> None
             | Some (k, r1) \<Rightarrow>
                 (case skip_ws r1 of
                    [] \<Rightarrow> None
                  | colon # r2 \<Rightarrow>
                      if colon \<noteq> CHR '':'' then None
                      else
                        (case parse_value r2 of
                           None \<Rightarrow> None
                         | Some (v, r3) \<Rightarrow>
                             (case skip_ws r3 of
                                [] \<Rightarrow> None
                              | d # r4 \<Rightarrow>
                                  if d = CHR '','' then parse_members (define_prop k v acc) r4
                                  else if d = CHR ''}'' then Some (JObj (define_prop k v acc), r4)
                                  else None)))))"
  by (subst parse_members.simps)
     (auto split: option.splits list.splits dest!: parse_shorter(1) skip_ws_Cons parse_chars_shorter)


section \<open>Evaluation on concrete inputs\<close>

lemmas js_eval =
  array_index_def is_digit_def read_nat_def digit_val_def show_nat.simps digit_char_def
  goes_before_def define_prop_def assign_prop_def proto_key_def sortObject_def
  hex_digit_def quote_char_def QuoteJSONString_def stringify_line_def show_int_def
  is_ws_def skip_ws_def hex_val_def unescape_def parse_number_def JSON_parse_def
  parse_value.simps parse_elements_unguarded parse_members_unguarded

lemmas host_eval =
  path_join_def path_normalize_def readFileSync_def writeFileSync_def console_log_def
  pkgFile_def project_cwd_def sort_field_def sort_fields_def sortDependencies_def
  fresh_host_def no_files_def project_files_def compact_manifest_def npm_data_def plain_chalk_def

lemma npm_data_pkgFile: "pkgFile npm_data = ''my-app/package.json''"
  by (simp add: host_eval)

lemma npm_data_cwd: "project_cwd npm_data (fresh_host files exits) = ''/home/dev/my-app''"
  by (simp add: host_eval)

lemma compact_manifest_parsed:
  "JSON_parse compact_manifest = Inr (JObj [(''dependencies'', JObj [(''a'', JStr ''1'')])])"
  by (simp add: compact_manifest_def js_eval)

lemma compact_manifest_sorted:
  "sort_fields (JObj [(''dependencies'', JObj [(''a'', JStr ''1'')])])
     = Inr (True, JObj [(''dependencies'', JObj [(''a'', JStr ''1'')])])"
  by (simp add: sort_fields_def sort_field_def js_eval)

lemma compact_manifest_written:
  "stringify_line (JObj [(''dependencies'', JObj [(''a'', JStr ''1'')])])
     = ''{\<newline>  \"dependencies\": {\<newline>    \"a\": \"1\"\<newline>  }\<newline>}\<newline>''"
  by (simp add: js_eval)

lemma sortDependencies_project:
  "sortDependencies npm_data (fresh_host project_files exits) =
     (Done, writeFileSync ''my-app/package.json''
              ''{\<newline>  \"dependencies\": {\<newline>    \"a\": \"1\"\<newline>  }\<newline>}\<newline>''
              (fresh_host project_files exits))"
  by (simp add: sortDependencies_def npm_data_pkgFile readFileSync_def fresh_host_def project_files_def
      compact_manifest_parsed compact_manifest_sorted compact_manifest_written)

section \<open>The instruction strings\<close>

lemma lintMsg_nonempty_iff:
  "lintMsg data \<noteq> [] \<longleftrightarrow>
     \<not> truthy (autoInstall data) \<and> truthy (lint data) \<and> isLintStyle (lintConfig data)"
  by (simp add: lintMsg_def)

text \<open>
  C2. \<open>lintMsg\<close> is to return the reminder when no installer is configured,
  linting was selected and the style is recognised. Linting selected is
  \<open>data.preset.lint\<close>, the flag \<open>runLintFix\<close> tests; \<open>lintMsg\<close> tests \<open>data.lint\<close>
  instead. With no installer, \<open>preset.lint\<close> true, style \<open>airbnb\<close> and no
  \<open>lint\<close> property, it returns the empty string.
\<close>

theorem lintMsg_ignores_preset_lint:
  "lintMsg \<lparr> inPlace = False, destDirName = ''my-app'', autoInstall = JBool False,
             lintConfig = JStr ''airbnb'', preset_lint = True, lint = JUndefined \<rparr> = ''''"
  by (simp add: lintMsg_def)

section \<open>The exit code and the promise of runCommand\<close>

text \<open>
  C7. A child was spawned (the command is a non-empty string) and reports an
  exit code: with code 0 the promise resolves, with no value; with any other
  code it rejects with that code.
\<close>

theorem runCommand_exit_code:
  assumes "c \<noteq> []"
    and "child_exit w (c, args, case options_cwd of None \<Rightarrow> proc_cwd w | Some d \<Rightarrow> d) = Some code"
  shows "fst (runCommand (JStr c) args options_cwd w) = (if code = 0 then Done else Throw (ExitCode code))"
  using assms by (simp add: runCommand_def Let_def)

theorem runCommand_exit_code_witness:
  "fst (runCommand (JStr ''npm'') [''install''] (Some ''/home/dev/my-app'') (fresh_host no_files all_exit_0)) = Done
   \<and> fst (runCommand (JStr ''npm'') [''install''] (Some ''/home/dev/my-app'') (fresh_host no_files install_exits_2))
       = Throw (ExitCode 2)"
proof -
  have c: "''npm'' \<noteq> []" by simp
  have zero: "child_exit (fresh_host no_files all_exit_0)
      (''npm'', [''install''],
       case Some ''/home/dev/my-app'' of None \<Rightarrow> proc_cwd (fresh_host no_files all_exit_0) | Some d \<Rightarrow> d) = Some 0"
    by (simp add: fresh_host_def all_exit_0_def)
  have two: "child_exit (fresh_host no_files install_exits_2)
      (''npm'', [''install''],
       case Some ''/home/dev/my-app'' of None \<Rightarrow> proc_cwd (fresh_host no_files install_exits_2) | Some d \<Rightarrow> d) = Some 2"
    by (simp add: fresh_host_def install_exits_2_def)
  from runCommand_exit_code [OF c zero] runCommand_exit_code [OF c two] show ?thesis by simp
qed

text \<open>
  C10. A child was spawned: when its exit event reports \<open>null\<close> the promise
  resolves, and whenever the promise rejects the reported code is a number
  other than 0, the value rejected with.
\<close>

theorem runCommand_rejects_only_truthy:
  assumes "c \<noteq> []"
  shows "(child_exit w (c, args, case options_cwd of None \<Rightarrow> proc_cwd w | Some d \<Rightarrow> d) = None
            \<longrightarrow> fst (runCommand (JStr c) args options_cwd w) = Done)
       \<and> (\<forall>e. fst (runCommand (JStr c) args options_cwd w) = Throw e \<longrightarrow>
              (\<exists>code. child_exit w (c, args, case options_cwd of None \<Rightarrow> proc_cwd w | Some d \<Rightarrow> d) = Some code
                      \<and> code \<noteq> 0 \<and> e = ExitCode code))"
  using assms by (auto simp add: runCommand_def Let_def split: option.splits if_splits)

theorem runCommand_rejects_only_truthy_witness:
  "fst (runCommand (JStr ''npm'') [''install''] None (fresh_host no_files killed_by_signal)) = Done"
proof -
  have c: "''npm'' \<noteq> []" by simp
  have null: "child_exit (fresh_host no_files killed_by_signal)
      (''npm'', [''install''],
       case None of None \<Rightarrow> proc_cwd (fresh_host no_files killed_by_signal) | Some d \<Rightarrow> d) = None"
    by (simp add: fresh_host_def killed_by_signal_def)
  from runCommand_rejects_only_truthy [OF c, of "fresh_host no_files killed_by_signal" "[''install'']" None] null
  show ?thesis by simp
qed

section \<open>The stages of complete\<close>

lemma sortDependencies_frame:
  "console (snd (sortDependencies data w)) = console w"
  "spawned (snd (sortDependencies data w)) = spawned w"
  "child_exit (snd (sortDependencies data w)) = child_exit w"
  "proc_cwd (snd (sortDependencies data w)) = proc_cwd w"
  by (simp_all add: sortDependencies_def writeFileSync_def split: sum.split prod.split)

lemma sortDependencies_Throw: "fst (sortDependencies data w) = Throw e \<Longrightarrow> snd (sortDependencies data w) = w"
  by (simp add: sortDependencies_def split: sum.splits prod.splits if_splits)

lemma sortDependencies_Done:
  "fst (sortDependencies data w) = Done \<Longrightarrow> \<exists>w1. sortDependencies data w = (Done, w1) \<and>
     console w1 = console w \<and> spawned w1 = spawned w \<and> child_exit w1 = child_exit w \<and> proc_cwd w1 = proc_cwd w"
  using sortDependencies_frame [of data w] by (cases "sortDependencies data w") simp

lemma installDependencies_ok:
  "exe \<noteq> [] \<Longrightarrow> child_exit w (exe, [''install''], cwd) = None \<or> child_exit w (exe, [''install''], cwd) = Some 0 \<Longrightarrow>
   installDependencies cwd (JStr exe) color w =
     (Done, w\<lparr>console := console w @ [[Str (''\<newline>\<newline> '' @ color ''[*] Installing project dependencies...'' @ ''\<newline>\<newline>'')]],
              spawned := spawned w @ [(exe, [''install''], cwd)]\<rparr>)"
  by (auto simp add: installDependencies_def Let_def starredLog_def console_log_def runCommand_def)

lemma installDependencies_fails:
  "exe \<noteq> [] \<Longrightarrow> child_exit w (exe, [''install''], cwd) = Some code \<Longrightarrow> code \<noteq> 0 \<Longrightarrow>
   installDependencies cwd (JStr exe) color w =
     (Exit 1, w\<lparr>console := console w @
                 [[Str (''\<newline>\<newline> '' @ color ''[*] Installing project dependencies...'' @ ''\<newline>\<newline>'')],
                  [],
                  [Str ('' '' @ exe @ '' install FAILED... Possible temporary npm registry issues?'')],
                  [Str '' Please try again later...''],
                  []],
              spawned := spawned w @ [(exe, [''install''], cwd)]\<rparr>)"
  by (simp add: installDependencies_def Let_def starredLog_def console_log_def runCommand_def)

lemma runLintFix_skipped:
  "\<not> (preset_lint data \<and> isLintStyle (lintConfig data)) \<Longrightarrow> runLintFix cwd data color w = (Done, w)"
  by (auto simp add: runLintFix_def)

lemma runLintFix_ok:
  "preset_lint data \<Longrightarrow> isLintStyle (lintConfig data) \<Longrightarrow> autoInstall data = JStr exe \<Longrightarrow> exe \<noteq> [] \<Longrightarrow>
   child_exit w (exe, lint_args (JStr exe), cwd) = None \<or> child_exit w (exe, lint_args (JStr exe), cwd) = Some 0 \<Longrightarrow>
   runLintFix cwd data color w =
     (Done, w\<lparr>console := console w @
                 [[Str (''\<newline>\<newline> '' @ color ''[*] Running eslint --fix to comply with chosen preset rules...'' @ ''\<newline>\<newline>'')]],
              spawned := spawned w @ [(exe, lint_args (JStr exe), cwd)]\<rparr>)"
  by (auto simp add: runLintFix_def Let_def starredLog_def console_log_def runCommand_def)

lemma runLintFix_fails:
  "preset_lint data \<Longrightarrow> isLintStyle (lintConfig data) \<Longrightarrow> autoInstall data = JStr exe \<Longrightarrow> exe \<noteq> [] \<Longrightarrow>
   child_exit w (exe, lint_args (JStr exe), cwd) = Some code \<Longrightarrow> code \<noteq> 0 \<Longrightarrow>
   runLintFix cwd data color w =
     (Done, w\<lparr>console := console w @
                 [[Str (''\<newline>\<newline> '' @ color ''[*] Running eslint --fix to comply with chosen preset rules...'' @ ''\<newline>\<newline>'')],
                  [],
                  [Str ('' '' @ exe @ '' lint FAILED...'')],
                  [Str '' Please try again later...''],
                  []],
              spawned := spawned w @ [(exe, lint_args (JStr exe), cwd)]\<rparr>)"
  by (simp add: runLintFix_def Let_def starredLog_def console_log_def runCommand_def)

lemma runLintFix_spawns:
  assumes "preset_lint data" "isLintStyle (lintConfig data)" "autoInstall data = JStr exe" "exe \<noteq> []"
  shows "fst (runLintFix cwd data color w) = Done
       \<and> spawned (snd (runLintFix cwd data color w)) = spawned w @ [(exe, lint_args (JStr exe), cwd)]"
proof (cases "child_exit w (exe, lint_args (JStr exe), cwd) = None \<or> child_exit w (exe, lint_args (JStr exe), cwd) = Some 0")
  case True
  from runLintFix_ok [OF assms True] show ?thesis by simp
next
  case False
  then obtain code where "child_exit w (exe, lint_args (JStr exe), cwd) = Some code" "code \<noteq> 0"
    by (cases "child_exit w (exe, lint_args (JStr exe), cwd)") auto
  from runLintFix_fails [OF assms this] show ?thesis by simp
qed

lemma complete_after_sort:
  "sortDependencies data w = (Done, w1) \<Longrightarrow>
   complete data ch w =
     (case (if truthy (autoInstall data) then
              (case installDependencies (project_cwd data w1) (autoInstall data) (green ch) w1 of
                 (Done, w2) \<Rightarrow> runLintFix (project_cwd data w1) data (green ch) w2
               | r \<Rightarrow> r)
            else (Done, w1)) of
        (Done, w3) \<Rightarrow> (Done, printMessage data ch w3)
      | (Throw e, w3) \<Rightarrow> (Done, printMessage data ch (console_log [Str (red ch ''Error:''), Val e] w3))
      | (Exit n, w3) \<Rightarrow> (Exit n, w3))"
  by (simp add: complete_def Let_def)

lemma complete_install_ok:
  assumes w1: "sortDependencies data w = (Done, w1)"
    and installer: "autoInstall data = JStr exe" "exe \<noteq> []"
    and ok: "child_exit w1 (exe, [''install''], project_cwd data w1) = None
             \<or> child_exit w1 (exe, [''install''], project_cwd data w1) = Some 0"
  shows "complete data ch w =
     (case runLintFix (project_cwd data w1) data (green ch)
             (w1\<lparr>console := console w1 @
                      [[Str (''\<newline>\<newline> '' @ green ch ''[*] Installing project dependencies...'' @ ''\<newline>\<newline>'')]],
                  spawned := spawned w1 @ [(exe, [''install''], project_cwd data w1)]\<rparr>) of
        (Done, w3) \<Rightarrow> (Done, printMessage data ch w3)
      | (Throw e, w3) \<Rightarrow> (Done, printMessage data ch (console_log [Str (red ch ''Error:''), Val e] w3))
      | (Exit n, w3) \<Rightarrow> (Exit n, w3))"
  by (simp add: complete_after_sort [OF w1] installer installDependencies_ok [OF installer(2) ok])

text \<open>
  C1, as the code has it. An error thrown by \<open>sortDependencies\<close> is not caught
  in \<open>complete\<close>, whose \<open>try\<close> block starts after that call: \<open>complete\<close> ends
  with the same error (its promise rejects), the host is as it was, nothing
  is printed and \<open>printMessage\<close> is not called.
\<close>

theorem sort_error_propagates:
  assumes "fst (sortDependencies data w) = Throw e"
  shows "complete data ch w = (Throw e, w)"
proof -
  from assms sortDependencies_Throw [OF assms] have "sortDependencies data w = (Throw e, w)"
    by (cases "sortDependencies data w") simp
  then show ?thesis by (simp add: complete_def)
qed

theorem sort_error_propagates_witness:
  "fst (sortDependencies npm_data (fresh_host no_files all_exit_0)) = Throw (ENOENT ''my-app/package.json'')
   \<and> complete npm_data plain_chalk (fresh_host no_files all_exit_0)
       = (Throw (ENOENT ''my-app/package.json''), fresh_host no_files all_exit_0)"
proof -
  have t: "fst (sortDependencies npm_data (fresh_host no_files all_exit_0)) = Throw (ENOENT ''my-app/package.json'')"
    by (simp add: sortDependencies_def npm_data_pkgFile readFileSync_def fresh_host_def no_files_def)
  from sort_error_propagates [OF t] t show ?thesis by simp
qed

text \<open>
  With no manifest on disk, \<open>complete\<close> ends with the error of the read and has
  printed nothing: the final message is not printed.
\<close>

theorem sort_error_not_caught:
  "fst (complete npm_data plain_chalk (fresh_host no_files all_exit_0)) = Throw (ENOENT ''my-app/package.json'')
   \<and> console (snd (complete npm_data plain_chalk (fresh_host no_files all_exit_0))) = []"
  by (simp add: complete_def sortDependencies_def npm_data_pkgFile readFileSync_def fresh_host_def no_files_def)

text \<open>
  C6. The manifest was sorted, an installer is configured and the install
  command exits with a code other than 0: \<open>complete\<close> ends in \<open>process.exit(1)\<close>,
  the install is the one command run, the lines printed are the starred line
  and the install-failure lines, and the final message is not among them.
\<close>

theorem install_failure_is_fatal:
  assumes sorted: "fst (sortDependencies data w) = Done"
    and installer: "autoInstall data = JStr exe" "exe \<noteq> []"
    and failed: "child_exit w (exe, [''install''], project_cwd data w) = Some code" "code \<noteq> 0"
  shows "fst (complete data ch w) = Exit 1
       \<and> spawned (snd (complete data ch w)) = spawned w @ [(exe, [''install''], project_cwd data w)]
       \<and> console (snd (complete data ch w)) = console w @
            [[Str (''\<newline>\<newline> '' @ green ch ''[*] Installing project dependencies...'' @ ''\<newline>\<newline>'')],
             [],
             [Str ('' '' @ exe @ '' install FAILED... Possible temporary npm registry issues?'')],
             [Str '' Please try again later...''],
             []]
       \<and> [Str (message data ch)] \<notin> set (drop (length (console w)) (console (snd (complete data ch w))))"
proof -
  obtain w1 where w1: "sortDependencies data w = (Done, w1)" "console w1 = console w"
      "spawned w1 = spawned w" "child_exit w1 = child_exit w" "proc_cwd w1 = proc_cwd w"
    using sortDependencies_Done [OF sorted] by blast
  have cwd: "project_cwd data w1 = project_cwd data w"
    by (simp add: project_cwd_def w1)
  have "child_exit w1 (exe, [''install''], project_cwd data w1) = Some code"
    using failed w1 cwd by simp
  from installDependencies_fails [OF installer(2) this failed(2)]
  show ?thesis
    by (simp add: complete_after_sort [OF w1(1)] installer w1 cwd message_def)
qed

theorem install_failure_is_fatal_witness:
  "fst (complete npm_data plain_chalk (fresh_host project_files install_exits_2)) = Exit 1
   \<and> spawned (snd (complete npm_data plain_chalk (fresh_host project_files install_exits_2)))
       = [(''npm'', [''install''], ''/home/dev/my-app'')]"
proof -
  let ?w = "fresh_host project_files install_exits_2"
  have s: "fst (sortDependencies npm_data ?w) = Done"
    by (simp add: sortDependencies_project)
  have i: "autoInstall npm_data = JStr ''npm''" "''npm'' \<noteq> []"
    by (simp_all add: npm_data_def)
  have f: "child_exit ?w (''npm'', [''install''], project_cwd npm_data ?w) = Some 2" "(2::int) \<noteq> 0"
    by (simp_all add: fresh_host_def install_exits_2_def)
  have e: "spawned ?w = []"
    by (simp add: fresh_host_def)
  from install_failure_is_fatal [OF s i f, of plain_chalk] show ?thesis
    by (simp add: npm_data_cwd e)
qed

lemma lint_fix_runs_installer:
  assumes sorted: "fst (sortDependencies data w) = Done"
    and installer: "autoInstall data = JStr exe" "exe \<noteq> []"
  shows "spawned (snd (complete data ch w)) =
           spawned w @ [(exe, [''install''], project_cwd data w)] @
           (if (child_exit w (exe, [''install''], project_cwd data w) = None
                \<or> child_exit w (exe, [''install''], project_cwd data w) = Some 0)
               \<and> preset_lint data
               \<and> lintConfig data \<in> {JStr ''prettier'', JStr ''standard'', JStr ''airbnb''}
            then [(exe,
                   if exe = ''npm'' then [''run'', ''lint'', ''--'', ''--fix'']
                   else [''run'', ''lint'', ''--fix''],
                   project_cwd data w)]
            else [])"
proof -
  obtain w1 where w1: "sortDependencies data w = (Done, w1)" "console w1 = console w"
      "spawned w1 = spawned w" "child_exit w1 = child_exit w" "proc_cwd w1 = proc_cwd w"
    using sortDependencies_Done [OF sorted] by blast
  have cwd: "project_cwd data w1 = project_cwd data w"
    by (simp add: project_cwd_def w1)
  have style: "isLintStyle (lintConfig data) \<longleftrightarrow>
      lintConfig data \<in> {JStr ''prettier'', JStr ''standard'', JStr ''airbnb''}"
    by (cases "lintConfig data") (auto simp add: lintStyles_def)
  have args: "lint_args (JStr exe) =
      (if exe = ''npm'' then [''run'', ''lint'', ''--'', ''--fix''] else [''run'', ''lint'', ''--fix''])"
    by (simp add: lint_args_def)
  let ?install = "(exe, [''install''], project_cwd data w)"
  show ?thesis
  proof (cases "child_exit w ?install = None \<or> child_exit w ?install = Some 0")
    case True
    then have ok: "child_exit w1 (exe, [''install''], project_cwd data w1) = None
        \<or> child_exit w1 (exe, [''install''], project_cwd data w1) = Some 0"
      using w1 cwd by simp
    note step = complete_install_ok [OF w1(1) installer ok, of ch]
    let ?w2 = "w1\<lparr>console := console w1 @
                      [[Str (''\<newline>\<newline> '' @ green ch ''[*] Installing project dependencies...'' @ ''\<newline>\<newline>'')]],
                  spawned := spawned w1 @ [(exe, [''install''], project_cwd data w1)]\<rparr>"
    show ?thesis
    proof (cases "preset_lint data \<and> isLintStyle (lintConfig data)")
      case False
      have skip: "runLintFix (project_cwd data w1) data (green ch) ?w2 = (Done, ?w2)"
        by (rule runLintFix_skipped [OF False])
      from False True style show ?thesis
        unfolding step skip by (auto simp add: w1 cwd printMessage_def console_log_def)
    next
      case lint: True
      then have l: "preset_lint data" "isLintStyle (lintConfig data)" by simp_all
      from runLintFix_spawns [OF l installer, of "project_cwd data w1" "green ch" ?w2]
      obtain w3 where w3: "runLintFix (project_cwd data w1) data (green ch) ?w2 = (Done, w3)"
        "spawned w3 = spawned ?w2 @ [(exe, lint_args (JStr exe), project_cwd data w1)]"
        by (cases "runLintFix (project_cwd data w1) data (green ch) ?w2") auto
      from True l style show ?thesis
        unfolding step w3(1) by (simp add: w3(2) w1 cwd args printMessage_def console_log_def)
    qed
  next
    case False
    then obtain code where code: "child_exit w ?install = Some code" "code \<noteq> 0"
      by (cases "child_exit w ?install") auto
    then have "child_exit w1 (exe, [''install''], project_cwd data w1) = Some code"
      using w1 cwd by simp
    from installDependencies_fails [OF installer(2) this code(2), of "green ch"] False
    show ?thesis
      by (simp add: complete_after_sort [OF w1(1)] installer w1 cwd)
  qed
qed

lemma runCommand_not_string:
  "(\<forall>c. cmd \<noteq> JStr c) \<Longrightarrow> runCommand cmd args opts w = (Throw TypeError, w)"
  by (cases cmd) (simp_all add: runCommand_def)

lemma installDependencies_not_string:
  assumes "\<forall>c. x \<noteq> JStr c" "truthy x"
  shows "fst (installDependencies cwd x color w) = Exit 1
       \<and> spawned (snd (installDependencies cwd x color w)) = spawned w"
proof -
  from assms(2) have "x \<noteq> JUndefined" by auto
  with runCommand_not_string [OF assms(1)] show ?thesis
    by (simp add: installDependencies_def Let_def starredLog_def console_log_def)
qed

lemma complete_no_spawn:
  assumes sorted: "fst (sortDependencies data w) = Done"
    and none: "\<forall>exe. autoInstall data = JStr exe \<longrightarrow> exe = []"
  shows "spawned (snd (complete data ch w)) = spawned w"
proof -
  obtain w1 where w1: "sortDependencies data w = (Done, w1)" "spawned w1 = spawned w"
    using sortDependencies_Done [OF sorted] by blast
  show ?thesis
  proof (cases "truthy (autoInstall data)")
    case False
    then show ?thesis
      by (simp add: complete_after_sort [OF w1(1)] w1 printMessage_def console_log_def)
  next
    case True
    with none have ns: "\<forall>c. autoInstall data \<noteq> JStr c" by auto
    from installDependencies_not_string [OF ns True, of "project_cwd data w1" "green ch" w1]
    obtain w2 where "installDependencies (project_cwd data w1) (autoInstall data) (green ch) w1 = (Exit 1, w2)"
      "spawned w2 = spawned w1"
      by (cases "installDependencies (project_cwd data w1) (autoInstall data) (green ch) w1") auto
    with True show ?thesis
      by (simp add: complete_after_sort [OF w1(1)] w1)
  qed
qed

text \<open>
  C8. The manifest was sorted. The commands \<open>complete\<close> runs are: none when
  no installer is configured (or \<open>autoInstall\<close> is not a string that \<open>spawn\<close>
  accepts); otherwise the install and then, exactly when the install did not
  fail, \<open>preset.lint\<close> is set and the style is one of prettier, standard and
  airbnb, the lint fix: the installer with \<open>run lint -- --fix\<close> when it is
  \<open>npm\<close> and with \<open>run lint --fix\<close> otherwise.
\<close>

theorem lint_fix_runs_iff:
  assumes sorted: "fst (sortDependencies data w) = Done"
  shows "spawned (snd (complete data ch w)) =
           spawned w @
           (case autoInstall data of
              JStr exe \<Rightarrow>
                if exe = [] then []
                else (exe, [''install''], project_cwd data w) #
                     (if (child_exit w (exe, [''install''], project_cwd data w) = None
                          \<or> child_exit w (exe, [''install''], project_cwd data w) = Some 0)
                         \<and> preset_lint data
                         \<and> lintConfig data \<in> {JStr ''prettier'', JStr ''standard'', JStr ''airbnb''}
                      then [(exe,
                             if exe = ''npm'' then [''run'', ''lint'', ''--'', ''--fix'']
                             else [''run'', ''lint'', ''--fix''],
                             project_cwd data w)]
                      else [])
            | _ \<Rightarrow> [])"
proof (cases "\<exists>exe. autoInstall data = JStr exe \<and> exe \<noteq> []")
  case True
  then obtain exe where exe: "autoInstall data = JStr exe" "exe \<noteq> []" by blast
  from lint_fix_runs_installer [OF sorted exe, of ch] exe show ?thesis by simp
next
  case False
  then have none: "\<forall>exe. autoInstall data = JStr exe \<longrightarrow> exe = []" by blast
  from complete_no_spawn [OF sorted none, of ch] none show ?thesis
    by (cases "autoInstall data") simp_all
qed

theorem lint_fix_runs_iff_witness:
  "spawned (snd (complete npm_data plain_chalk (fresh_host project_files all_exit_0)))
     = [(''npm'', [''install''], ''/home/dev/my-app''),
        (''npm'', [''run'', ''lint'', ''--'', ''--fix''], ''/home/dev/my-app'')]"
proof -
  let ?w = "fresh_host project_files all_exit_0"
  have s: "fst (sortDependencies npm_data ?w) = Done"
    by (simp add: sortDependencies_project)
  have i: "autoInstall npm_data = JStr ''npm''"
    by (simp add: npm_data_def)
  have e: "spawned ?w = []" "child_exit ?w = all_exit_0"
    by (simp_all add: fresh_host_def)
  have d: "preset_lint npm_data" "lintConfig npm_data = JStr ''standard''"
    by (simp_all add: npm_data_def)
  from lint_fix_runs_iff [OF s, of plain_chalk] show ?thesis
    by (simp add: i npm_data_cwd e d all_exit_0_def)
qed

text \<open>
  C9. The manifest was sorted, the install did not fail, the lint fix is due
  and its command exits with a code other than 0: \<open>complete\<close> returns, the host
  process is not ended, and what it has printed is the two starred lines, the
  lint-failure lines and, last, the final message.
\<close>

theorem lint_failure_not_fatal:
  assumes sorted: "fst (sortDependencies data w) = Done"
    and installer: "autoInstall data = JStr exe" "exe \<noteq> []"
    and installed: "child_exit w (exe, [''install''], project_cwd data w) = None
                    \<or> child_exit w (exe, [''install''], project_cwd data w) = Some 0"
    and lint: "preset_lint data" "isLintStyle (lintConfig data)"
    and failed: "child_exit w (exe, lint_args (JStr exe), project_cwd data w) = Some code" "code \<noteq> 0"
  shows "fst (complete data ch w) = Done
       \<and> console (snd (complete data ch w)) = console w @
            [[Str (''\<newline>\<newline> '' @ green ch ''[*] Installing project dependencies...'' @ ''\<newline>\<newline>'')],
             [Str (''\<newline>\<newline> '' @ green ch ''[*] Running eslint --fix to comply with chosen preset rules...'' @ ''\<newline>\<newline>'')],
             [],
             [Str ('' '' @ exe @ '' lint FAILED...'')],
             [Str '' Please try again later...''],
             [],
             [Str (message data ch)]]"
proof -
  obtain w1 where w1: "sortDependencies data w = (Done, w1)" "console w1 = console w"
      "spawned w1 = spawned w" "child_exit w1 = child_exit w" "proc_cwd w1 = proc_cwd w"
    using sortDependencies_Done [OF sorted] by blast
  have cwd: "project_cwd data w1 = project_cwd data w"
    by (simp add: project_cwd_def w1)
  have ok: "child_exit w1 (exe, [''install''], project_cwd data w1) = None
        \<or> child_exit w1 (exe, [''install''], project_cwd data w1) = Some 0"
    using installed w1 cwd by simp
  note step = complete_install_ok [OF w1(1) installer ok, of ch]
  let ?w2 = "w1\<lparr>console := console w1 @
                    [[Str (''\<newline>\<newline> '' @ green ch ''[*] Installing project dependencies...'' @ ''\<newline>\<newline>'')]],
                spawned := spawned w1 @ [(exe, [''install''], project_cwd data w1)]\<rparr>"
  have "child_exit ?w2 (exe, lint_args (JStr exe), project_cwd data w1) = Some code"
    using failed w1 cwd by simp
  note lf = runLintFix_fails [OF lint installer this failed(2), of "green ch"]
  show ?thesis
    unfolding step lf by (simp add: w1 cwd printMessage_def console_log_def)
qed

theorem lint_failure_not_fatal_witness:
  "fst (complete npm_data plain_chalk (fresh_host project_files lint_exits_1)) = Done
   \<and> last (console (snd (complete npm_data plain_chalk (fresh_host project_files lint_exits_1))))
       = [Str (message npm_data plain_chalk)]"
proof -
  let ?w = "fresh_host project_files lint_exits_1"
  have s: "fst (sortDependencies npm_data ?w) = Done"
    by (simp add: sortDependencies_project)
  have i: "autoInstall npm_data = JStr ''npm''" "''npm'' \<noteq> []"
    by (simp_all add: npm_data_def)
  have ok: "child_exit ?w (''npm'', [''install''], project_cwd npm_data ?w) = None
      \<or> child_exit ?w (''npm'', [''install''], project_cwd npm_data ?w) = Some 0"
    by (simp add: fresh_host_def lint_exits_1_def)
  have l: "preset_lint npm_data" "isLintStyle (lintConfig npm_data)"
    by (simp_all add: npm_data_def lintStyles_def)
  have f: "child_exit ?w (''npm'', lint_args (JStr ''npm''), project_cwd npm_data ?w) = Some 1" "(1::int) \<noteq> 0"
    by (simp_all add: fresh_host_def lint_exits_1_def lint_args_def)
  from lint_failure_not_fatal [OF s i ok l f, of plain_chalk] show ?thesis
    by simp
qed

section \<open>What sortObject builds\<close>

text \<open>
  What the loop of \<open>sortObject\<close> builds, whatever the keys are: the keys of
  the result are distinct, in enumeration order, with those that are not array
  indices ascending, and each holds the value the object had for it.
\<close>

lemma array_index_less: "array_index k = Some i \<Longrightarrow> i < 4294967295"
  by (simp add: array_index_def split: if_splits)

lemma array_index_inj: "array_index k = Some i \<Longrightarrow> array_index k' = Some i \<Longrightarrow> k = k'"
  by (metis array_index_def option.distinct(1) option.inject)

lemma goes_before_rank: "goes_before k k' \<longleftrightarrow> key_rank k < key_rank k'"
  by (auto simp add: goes_before_def key_rank_def split: option.splits dest: array_index_less)

lemma key_rank_le: "key_rank k \<le> 4294967295"
  by (auto simp add: key_rank_def split: option.splits dest: array_index_less)

lemma key_rank_max: "array_index k = None \<longleftrightarrow> key_rank k = 4294967295"
  by (auto simp add: key_rank_def split: option.splits dest: array_index_less)

lemma key_rank_not_above [simp]: "\<not> 4294967295 < key_rank k"
  using key_rank_le [of k] by simp

lemma set_insert_key: "set (insert_key k v ps) = insert (k, v) (set ps)"
  by (induction ps) auto

lemma keys_insert_key: "set (map fst (insert_key k v ps)) = insert k (set (map fst ps))"
  by (induction ps) auto

lemma distinct_insert_key:
  "k \<notin> set (map fst ps) \<Longrightarrow> distinct (map fst ps) \<Longrightarrow> distinct (map fst (insert_key k v ps))"
  by (induction ps) (auto simp add: keys_insert_key [simplified])

lemma sorted_insert_key:
  "sorted (map key_rank (map fst ps)) \<Longrightarrow> sorted (map key_rank (map fst (insert_key k v ps)))"
  by (induction ps) (auto simp add: goes_before_rank set_insert_key)

lemma names_insert_key:
  "filter (\<lambda>k. array_index k = None) (map fst (insert_key k v ps)) =
     filter (\<lambda>k. array_index k = None) (map fst ps) @ (if array_index k = None then [k] else [])"
  by (induction ps) (auto simp add: goes_before_rank key_rank_max)

lemma keys_update: "map fst (map (\<lambda>p. if fst p = k then (k, v) else p) ps) = map fst ps"
  by (induction ps) auto

lemma set_update:
  "set (map (\<lambda>p. if fst p = k then (k, v) else p) ps) \<subseteq> insert (k, v) (set ps)"
  by (induction ps) auto

lemma assign_prop_cases:
  "assign_prop k v ps =
     (if k \<in> set (map fst ps) then map (\<lambda>p. if fst p = k then (k, v) else p) ps
      else if k = proto_key then ps else insert_key k v ps)"
  by (simp add: assign_prop_def define_prop_def)

lemma keys_assign_prop_list:
  "map fst (assign_prop k v ps) =
     (if k \<in> set (map fst ps) \<or> k = proto_key then map fst ps else map fst (insert_key k v ps))"
proof (cases "k \<in> set (map fst ps)")
  case True
  then have "assign_prop k v ps = map (\<lambda>p. if fst p = k then (k, v) else p) ps"
    unfolding assign_prop_cases by (simp only: if_True)
  with True keys_update [of k v ps] show ?thesis by (simp only: if_True simp_thms)
next
  case False
  then show ?thesis unfolding assign_prop_cases by auto
qed

lemma keys_assign_prop:
  "set (map fst (assign_prop k v ps)) =
     (if k = proto_key \<and> k \<notin> set (map fst ps) then set (map fst ps) else insert k (set (map fst ps)))"
  unfolding keys_assign_prop_list keys_insert_key [symmetric]
  by (auto simp add: keys_insert_key simp del: set_map map_map)

lemma distinct_assign_prop:
  "distinct (map fst ps) \<Longrightarrow> distinct (map fst (assign_prop k v ps))"
  unfolding keys_assign_prop_list by (simp add: distinct_insert_key del: set_map map_map)

lemma sorted_assign_prop:
  "sorted (map key_rank (map fst ps)) \<Longrightarrow> sorted (map key_rank (map fst (assign_prop k v ps)))"
  unfolding keys_assign_prop_list by (simp add: sorted_insert_key del: set_map map_map)

lemma names_assign_prop:
  "filter (\<lambda>k. array_index k = None) (map fst (assign_prop k v ps)) =
     filter (\<lambda>k. array_index k = None) (map fst ps) @
     (if k \<notin> set (map fst ps) \<and> k \<noteq> proto_key \<and> array_index k = None then [k] else [])"
  unfolding keys_assign_prop_list by (simp add: names_insert_key del: set_map map_map)

lemma values_assign_prop:
  assumes "\<forall>p\<in>set ps. snd p = f (fst p)"
  shows "\<forall>p\<in>set (assign_prop k (f k) ps). snd p = f (fst p)"
proof
  fix p assume p: "p \<in> set (assign_prop k (f k) ps)"
  then have "p = (k, f k) \<or> p \<in> set ps"
    unfolding assign_prop_cases using set_update [of k "f k" ps]
    by (auto simp add: set_insert_key simp del: set_map split: if_splits)
  with assms show "snd p = f (fst p)" by auto
qed


lemma keys_fold:
  "set (map fst (fold (\<lambda>item so. assign_prop item (f item) so) ks acc)) =
     set (map fst acc) \<union> (set ks - {proto_key})"
proof (induction ks arbitrary: acc)
  case Nil
  then show ?case by simp
next
  case (Cons k ks)
  show ?case
    unfolding fold_simps Cons.IH keys_assign_prop by auto
qed

lemma distinct_fold:
  "distinct (map fst acc) \<Longrightarrow> distinct (map fst (fold (\<lambda>item so. assign_prop item (f item) so) ks acc))"
proof (induction ks arbitrary: acc)
  case Nil
  then show ?case by simp
next
  case (Cons k ks)
  from Cons.IH [OF distinct_assign_prop [OF Cons.prems, of k "f k"]] show ?case by simp
qed

lemma sorted_fold:
  "sorted (map key_rank (map fst acc)) \<Longrightarrow>
   sorted (map key_rank (map fst (fold (\<lambda>item so. assign_prop item (f item) so) ks acc)))"
proof (induction ks arbitrary: acc)
  case Nil
  then show ?case by simp
next
  case (Cons k ks)
  from Cons.IH [OF sorted_assign_prop [OF Cons.prems, of k "f k"]] show ?case by simp
qed

lemma values_fold:
  "\<forall>p\<in>set acc. snd p = f (fst p) \<Longrightarrow>
   \<forall>p\<in>set (fold (\<lambda>item so. assign_prop item (f item) so) ks acc). snd p = f (fst p)"
proof (induction ks arbitrary: acc)
  case Nil
  then show ?case by simp
next
  case (Cons k ks)
  from values_assign_prop [OF Cons.prems, of k] show ?case
    by (simp add: Cons.IH)
qed

lemma names_fold:
  assumes "sorted ks"
    and "sorted (filter (\<lambda>k. array_index k = None) (map fst acc))"
    and "\<forall>a\<in>set (map fst acc). \<forall>x\<in>set ks. array_index a = None \<longrightarrow> a \<le> x"
  shows "sorted (filter (\<lambda>k. array_index k = None)
           (map fst (fold (\<lambda>item so. assign_prop item (f item) so) ks acc)))"
  using assms
proof (induction ks arbitrary: acc)
  case Nil
  then show ?case by simp
next
  case (Cons k ks)
  let ?acc = "assign_prop k (f k) acc"
  have 1: "sorted ks" using Cons.prems(1) by simp
  have 2: "sorted (filter (\<lambda>k. array_index k = None) (map fst ?acc))"
    using Cons.prems(2,3) by (auto simp add: names_assign_prop sorted_append simp del: set_map)
  have 3: "\<forall>a\<in>set (map fst ?acc). \<forall>x\<in>set ks. array_index a = None \<longrightarrow> a \<le> x"
    using Cons.prems(1,3) by (auto simp add: keys_assign_prop simp del: set_map split: if_splits)
  from Cons.IH [OF 1 2 3] show ?case by simp
qed

lemma canonical_fold:
  "sorted ks \<Longrightarrow> canonical_keys (map fst (fold (\<lambda>item so. assign_prop item (f item) so) ks []))"
  unfolding canonical_keys_def
  using distinct_fold [of "[]" f ks] sorted_fold [of "[]" f ks] names_fold [of ks "[]" f]
  by simp


lemma rank_split:
  "sorted (map key_rank ks) \<Longrightarrow>
   ks = filter (\<lambda>k. array_index k \<noteq> None) ks @ filter (\<lambda>k. array_index k = None) ks"
proof (induction ks)
  case Nil
  then show ?case by simp
next
  case (Cons k ks)
  show ?case
  proof (cases "array_index k")
    case None
    then have top: "key_rank k = 4294967295"
      by (simp add: key_rank_max)
    have "\<forall>x\<in>set ks. array_index x = None"
    proof
      fix x assume "x \<in> set ks"
      with Cons.prems have "key_rank k \<le> key_rank x" by simp
      with top key_rank_le [of x] show "array_index x = None" by (simp add: key_rank_max)
    qed
    then have "filter (\<lambda>k. array_index k \<noteq> None) ks = []" "filter (\<lambda>k. array_index k = None) ks = ks"
      by (simp_all add: filter_empty_conv filter_id_conv)
    with None show ?thesis by simp
  next
    case (Some i)
    with Cons show ?thesis by simp
  qed
qed

lemma canonical_keys_unique:
  assumes "canonical_keys ks" "canonical_keys ks'" "set ks = set ks'"
  shows "ks = ks'"
proof -
  let ?I = "\<lambda>k. array_index k \<noteq> None" and ?N = "\<lambda>k. array_index k = None"
  have inj: "inj_on key_rank (set (filter ?I ks) \<union> set (filter ?I ks'))"
    by (auto simp add: inj_on_def key_rank_def dest: array_index_inj)
  have s1: "sorted (map key_rank (filter ?I ks))" and s2: "sorted (map key_rank (filter ?I ks'))"
    using assms(1,2) by (simp_all add: canonical_keys_def sorted_filter)
  have d1: "distinct (map key_rank (filter ?I ks))" and d2: "distinct (map key_rank (filter ?I ks'))"
    using assms(1,2) inj by (auto simp add: canonical_keys_def distinct_map inj_on_def)
  have e: "set (map key_rank (filter ?I ks)) = set (map key_rank (filter ?I ks'))"
    using assms(3) by simp
  have "map key_rank (filter ?I ks) = map key_rank (filter ?I ks')"
    by (rule sorted_distinct_set_unique [OF s1 d1 s2 d2 e])
  with inj have idx: "filter ?I ks = filter ?I ks'"
    by (simp add: inj_on_map_eq_map)
  have names: "filter ?N ks = filter ?N ks'"
    using assms by (intro sorted_distinct_set_unique) (simp_all add: canonical_keys_def)
  from rank_split [of ks] rank_split [of ks'] assms(1,2) idx names show ?thesis
    by (simp add: canonical_keys_def)
qed

lemma entries_by_keys:
  "\<forall>p\<in>set ps. snd p = f (fst p) \<Longrightarrow> ps = map (\<lambda>k. (k, f k)) (map fst ps)"
  by (induction ps) auto

lemma sortObject_canonical_fixpoint:
  assumes "sorted ks0"
    and R: "R = fold (\<lambda>item so. assign_prop item (f item) so) ks0 []"
  shows "fold (\<lambda>item so. assign_prop item (own_prop (JObj R) item) so) (sort (map fst R)) [] = R"
proof -
  let ?R2 = "fold (\<lambda>item so. assign_prop item (own_prop (JObj R) item) so) (sort (map fst R)) []"
  have cR: "canonical_keys (map fst R)"
    unfolding R by (rule canonical_fold [OF assms(1)])
  have cR2: "canonical_keys (map fst ?R2)"
    by (rule canonical_fold) simp
  have "proto_key \<notin> set (map fst R)"
    unfolding R keys_fold by simp
  then have "set (map fst ?R2) = set (map fst R)"
    unfolding keys_fold by simp
  with cR cR2 have keys: "map fst ?R2 = map fst R"
    by (intro canonical_keys_unique)
  have vR: "\<forall>p\<in>set R. snd p = f (fst p)"
    unfolding R by (rule values_fold) simp
  have vR2: "\<forall>p\<in>set ?R2. snd p = own_prop (JObj R) (fst p)"
    by (rule values_fold) simp
  have same: "\<forall>k\<in>set (map fst R). own_prop (JObj R) k = f k"
    using vR cR by (auto simp add: canonical_keys_def)
  have "?R2 = map (\<lambda>k. (k, own_prop (JObj R) k)) (map fst ?R2)"
    by (rule entries_by_keys [OF vR2])
  then have "?R2 = map (\<lambda>k. (k, own_prop (JObj R) k)) (map fst R)"
    unfolding keys .
  also have "\<dots> = map (\<lambda>k. (k, f k)) (map fst R)"
    using same by simp
  also have "\<dots> = R"
    by (rule entries_by_keys [OF vR, symmetric])
  finally show ?thesis .
qed


text \<open>
  C5. Sorting is idempotent: sorting the result of \<open>sortObject\<close> again returns
  it unchanged (and where \<open>sortObject\<close> throws, on \<open>null\<close> and \<open>undefined\<close>,
  there is nothing to sort again).
\<close>

theorem sortObject_idempotent:
  "(case sortObject x of Inl e \<Rightarrow> Inl e | Inr y \<Rightarrow> sortObject y) = sortObject x"
proof (cases "x = JUndefined \<or> x = JNull")
  case True
  then show ?thesis by (auto simp add: sortObject_def)
next
  case False
  let ?R = "fold (\<lambda>item so. assign_prop item (own_prop x item) so) (sort (own_keys x)) []"
  have "sortObject x = Inr (JObj ?R)"
    using False by (simp add: sortObject_def)
  moreover have "sortObject (JObj ?R) = Inr (JObj ?R)"
    using sortObject_canonical_fixpoint [of "sort (own_keys x)" ?R "own_prop x"]
    by (simp add: sortObject_def)
  ultimately show ?thesis by simp
qed

section \<open>When sortDependencies writes\<close>

lemma truthy_not_null: "truthy v \<Longrightarrow> v \<noteq> JUndefined \<and> v \<noteq> JNull"
  by (cases v) simp_all

lemma sortObject_truthy:
  "truthy v \<Longrightarrow> sortObject v = Inr (JObj (fold (\<lambda>item so. assign_prop item (own_prop v item) so) (sort (own_keys v)) []))"
  using truthy_not_null [of v] by (simp add: sortObject_def)

lemma map_of_update_other:
  "g \<noteq> k \<Longrightarrow> map_of (map (\<lambda>p. if fst p = k then (k, v) else p) ps) g = map_of ps g"
  by (induction ps) auto

lemma own_prop_set_prop_other:
  assumes "truthy (own_prop pkg k)" "g \<noteq> k"
  shows "own_prop (set_prop pkg k v) g = own_prop pkg g"
proof (cases pkg)
  case (JObj ps)
  with assms(1) have "map_of ps k \<noteq> None" by (auto split: option.splits)
  then have "k \<in> fst ` set ps" by (simp add: map_of_eq_None_iff)
  then have "assign_prop k v ps = map (\<lambda>p. if fst p = k then (k, v) else p) ps"
    by (simp add: assign_prop_def define_prop_def)
  with JObj assms(2) show ?thesis by (simp add: map_of_update_other)
qed simp_all

lemma sort_field_result:
  "\<exists>pkg'. sort_field f (b, pkg) = Inr (b \<or> truthy (own_prop pkg f), pkg')
      \<and> (\<forall>g. g \<noteq> f \<longrightarrow> own_prop pkg' g = own_prop pkg g)
      \<and> (\<not> truthy (own_prop pkg f) \<longrightarrow> pkg' = pkg)"
  by (auto simp add: sort_field_def sortObject_truthy own_prop_set_prop_other)

lemma sort_fields_result:
  assumes "pkg \<noteq> JNull" "pkg \<noteq> JUndefined"
  shows "\<exists>pkg'. sort_fields pkg =
           Inr (truthy (own_prop pkg ''dependencies'') \<or> truthy (own_prop pkg ''devDependencies''), pkg')
         \<and> (\<not> truthy (own_prop pkg ''dependencies'') \<and> \<not> truthy (own_prop pkg ''devDependencies'') \<longrightarrow> pkg' = pkg)"
proof -
  obtain p1 where p1: "sort_field ''dependencies'' (False, pkg) = Inr (truthy (own_prop pkg ''dependencies''), p1)"
    "own_prop p1 ''devDependencies'' = own_prop pkg ''devDependencies''"
    "\<not> truthy (own_prop pkg ''dependencies'') \<longrightarrow> p1 = pkg"
    using sort_field_result [of "''dependencies''" False pkg] by auto
  obtain p2 where p2: "sort_field ''devDependencies'' (truthy (own_prop pkg ''dependencies''), p1)
      = Inr (truthy (own_prop pkg ''dependencies'') \<or> truthy (own_prop p1 ''devDependencies''), p2)"
    "\<not> truthy (own_prop p1 ''devDependencies'') \<longrightarrow> p2 = p1"
    using sort_field_result [of "''devDependencies''" "truthy (own_prop pkg ''dependencies'')" p1] by auto
  from assms p1 p2 show ?thesis
    by (auto simp add: sort_fields_def)
qed


text \<open>
  C3, as the code has it. The manifest was read and parsed: the file is written
  exactly when \<open>dependencies\<close> or \<open>devDependencies\<close> is present (truthy),
  whether or not its keys were in order already; when neither is present
  nothing is written and the host is as it was; when one is present the file
  is overwritten with the serialisation of the manifest that \<open>sort_fields\<close>
  returns.
\<close>

theorem sortDependencies_writes_iff_present:
  assumes "disk w (pkgFile data) = Some content" and "JSON_parse content = Inr pkg"
  shows "(writes (snd (sortDependencies data w)) \<noteq> writes w)
           = (truthy (own_prop pkg ''dependencies'') \<or> truthy (own_prop pkg ''devDependencies''))
       \<and> (\<not> truthy (own_prop pkg ''dependencies'') \<and> \<not> truthy (own_prop pkg ''devDependencies'')
             \<longrightarrow> snd (sortDependencies data w) = w)
       \<and> (truthy (own_prop pkg ''dependencies'') \<or> truthy (own_prop pkg ''devDependencies'')
             \<longrightarrow> (\<exists>pkg'. sort_fields pkg = Inr (True, pkg')
                    \<and> snd (sortDependencies data w)
                        = writeFileSync (pkgFile data) (stringify_line pkg') w))"
proof (cases "pkg = JNull \<or> pkg = JUndefined")
  case True
  with assms show ?thesis
    by (auto simp add: sortDependencies_def readFileSync_def sort_fields_def)
next
  case False
  then obtain pkg' where "sort_fields pkg =
           Inr (truthy (own_prop pkg ''dependencies'') \<or> truthy (own_prop pkg ''devDependencies''), pkg')"
    using sort_fields_result [of pkg] by auto
  with assms show ?thesis
    by (auto simp add: sortDependencies_def readFileSync_def writeFileSync_def)
qed

theorem sortDependencies_writes_iff_present_witness:
  "writes (snd (sortDependencies npm_data (fresh_host project_files all_exit_0)))
     \<noteq> writes (fresh_host project_files all_exit_0)
   \<and> truthy (own_prop (JObj [(''dependencies'', JObj [(''a'', JStr ''1'')])]) ''dependencies'')"
proof -
  let ?w = "fresh_host project_files all_exit_0"
  have r: "disk ?w (pkgFile npm_data) = Some compact_manifest"
    by (simp add: npm_data_pkgFile fresh_host_def project_files_def)
  from sortDependencies_writes_iff_present [OF r compact_manifest_parsed] show ?thesis
    by simp
qed

text \<open>
  The keys of the one field of this manifest are in order already, and
  \<open>sortObject\<close> returns the field as it was; the file is written all the same,
  and its content is no longer what it was.
\<close>

theorem sorted_manifest_rewritten:
  "JSON_parse compact_manifest = Inr (JObj [(''dependencies'', JObj [(''a'', JStr ''1'')])])
   \<and> sortObject (JObj [(''a'', JStr ''1'')]) = Inr (JObj [(''a'', JStr ''1'')])
   \<and> writes (snd (sortDependencies npm_data (fresh_host project_files all_exit_0)))
       = [(''my-app/package.json'', ''{\<newline>  \"dependencies\": {\<newline>    \"a\": \"1\"\<newline>  }\<newline>}\<newline>'')]
   \<and> disk (snd (sortDependencies npm_data (fresh_host project_files all_exit_0))) ''my-app/package.json''
       \<noteq> disk (fresh_host project_files all_exit_0) ''my-app/package.json''"
proof -
  have "sortObject (JObj [(''a'', JStr ''1'')]) = Inr (JObj [(''a'', JStr ''1'')])"
    by (simp add: js_eval)
  moreover have "disk (snd (sortDependencies npm_data (fresh_host project_files all_exit_0))) ''my-app/package.json''
       \<noteq> disk (fresh_host project_files all_exit_0) ''my-app/package.json''"
    unfolding sortDependencies_project
    by (simp add: writeFileSync_def fresh_host_def project_files_def compact_manifest_def)
  moreover have "writes (snd (sortDependencies npm_data (fresh_host project_files all_exit_0)))
       = [(''my-app/package.json'', ''{\<newline>  \"dependencies\": {\<newline>    \"a\": \"1\"\<newline>  }\<newline>}\<newline>'')]"
    unfolding sortDependencies_project by (simp add: writeFileSync_def fresh_host_def)
  ultimately show ?thesis
    using compact_manifest_parsed by simp
qed

section \<open>The order of the names after sorting\<close>

text \<open>
  When the names of a field are distinct, none of them an array index or
  \<open>__proto__\<close>, \<open>sortObject\<close> returns them in strictly ascending order of
  their code units, each with the value it had.
\<close>

lemma sortObject_names_alphabetical:
  assumes d: "distinct (map fst ps)"
    and n: "\<forall>k\<in>set (map fst ps). array_index k = None \<and> k \<noteq> proto_key"
  shows "\<exists>qs. sortObject (JObj ps) = Inr (JObj qs) \<and> map fst qs = sort (map fst ps)
            \<and> sorted_wrt (<) (map fst qs) \<and> map_of qs = map_of ps"
proof -
  let ?f = "own_prop (JObj ps)"
  let ?qs = "fold (\<lambda>item so. assign_prop item (?f item) so) (sort (map fst ps)) []"
  have so: "sortObject (JObj ps) = Inr (JObj ?qs)"
    by (simp add: sortObject_def)
  have c: "canonical_keys (map fst ?qs)"
    by (rule canonical_fold) simp
  have ks: "set (map fst ?qs) = set (map fst ps)"
    unfolding keys_fold using n by auto
  with n have "filter (\<lambda>k. array_index k = None) (map fst ?qs) = map fst ?qs"
    by (simp add: filter_id_conv del: set_map)
  with c have s: "sorted (map fst ?qs)" and dq: "distinct (map fst ?qs)"
    by (simp_all add: canonical_keys_def)
  have keys: "map fst ?qs = sort (map fst ps)"
    using s dq ks d by (intro sorted_distinct_set_unique) simp_all
  have strict: "sorted_wrt (<) (map fst ?qs)"
    using s dq by (simp add: strict_sorted_iff)
  have v: "\<forall>p\<in>set ?qs. snd p = ?f (fst p)"
    by (rule values_fold) simp
  have "map_of ?qs k = map_of ps k" for k
  proof (cases "k \<in> set (map fst ps)")
    case True
    then obtain u where u: "map_of ps k = Some u"
      by (cases "map_of ps k") (auto simp add: map_of_eq_None_iff)
    from True ks have "k \<in> fst ` set ?qs" by (simp only: set_map)
    then obtain u' where u': "(k, u') \<in> set ?qs" by fastforce
    from v u' have "u' = ?f k" by fastforce
    with u have "u' = u" by simp
    with u' dq u show ?thesis by simp
  next
    case False
    with ks have "k \<notin> fst ` set ?qs" "k \<notin> fst ` set ps" by (simp_all only: set_map not_False_eq_True)
    then have "map_of ?qs k = None" "map_of ps k = None" by (simp_all only: map_of_eq_None_iff not_False_eq_True)
    then show ?thesis by simp
  qed
  then have "map_of ?qs = map_of ps" by (rule ext)
  with so keys strict show ?thesis by blast
qed

text \<open>A property named \<open>__proto__\<close> is not copied: the assignment runs the inherited setter.\<close>

lemma proto_name_dropped:
  "sortObject (JObj [(''__proto__'', JStr ''1.0.0''), (''a'', JStr ''2.0.0'')]) = Inr (JObj [(''a'', JStr ''2.0.0'')])"
  by (simp add: js_eval)

lemma numeric_manifest_parsed:
  "JSON_parse numeric_manifest =
     Inr (JObj [(''dependencies'', JObj [(''9'', JStr ''1.0.0''), (''10'', JStr ''2.0.0'')])])"
  by (simp add: numeric_manifest_def js_eval)

lemma numeric_names_sorted:
  "sortObject (JObj [(''9'', JStr ''1.0.0''), (''10'', JStr ''2.0.0'')])
     = Inr (JObj [(''9'', JStr ''1.0.0''), (''10'', JStr ''2.0.0'')])"
  by (simp add: js_eval)

lemma numeric_manifest_sorted:
  "sort_fields (JObj [(''dependencies'', JObj [(''9'', JStr ''1.0.0''), (''10'', JStr ''2.0.0'')])])
     = Inr (True, JObj [(''dependencies'', JObj [(''9'', JStr ''1.0.0''), (''10'', JStr ''2.0.0'')])])"
  by (simp add: sort_fields_def sort_field_def numeric_names_sorted) (simp add: js_eval)

lemma numeric_manifest_written:
  "stringify_line (JObj [(''dependencies'', JObj [(''9'', JStr ''1.0.0''), (''10'', JStr ''2.0.0'')])])
     = ''{\<newline>  \"dependencies\": {\<newline>    \"9\": \"1.0.0\",\<newline>    \"10\": \"2.0.0\"\<newline>  }\<newline>}\<newline>''"
  by (simp add: js_eval)


text \<open>
  C4. After \<open>sortDependencies\<close> the names of each present field are to be in
  strictly ascending lexicographic order, as the comment on the function has
  it (\<open>Sorts dependencies in package.json alphabetically\<close>). With the two
  dependencies \<open>9\<close> and \<open>10\<close> the file written lists \<open>9\<close> before \<open>10\<close>, and
  \<open>10\<close> is below \<open>9\<close> in that order: \<open>sortObject\<close> assigns the sorted names
  to a plain object, which enumerates names that are array indices by their
  number.
\<close>

theorem numeric_names_not_alphabetical:
  "JSON_parse numeric_manifest =
     Inr (JObj [(''dependencies'', JObj [(''9'', JStr ''1.0.0''), (''10'', JStr ''2.0.0'')])])
   \<and> disk (snd (sortDependencies npm_data (fresh_host numeric_files all_exit_0))) ''my-app/package.json''
       = Some ''{\<newline>  \"dependencies\": {\<newline>    \"9\": \"1.0.0\",\<newline>    \"10\": \"2.0.0\"\<newline>  }\<newline>}\<newline>''
   \<and> ''10'' < ''9''"
proof -
  have "sortDependencies npm_data (fresh_host numeric_files all_exit_0) =
     (Done, writeFileSync ''my-app/package.json''
              ''{\<newline>  \"dependencies\": {\<newline>    \"9\": \"1.0.0\",\<newline>    \"10\": \"2.0.0\"\<newline>  }\<newline>}\<newline>''
              (fresh_host numeric_files all_exit_0))"
    by (simp add: sortDependencies_def npm_data_pkgFile readFileSync_def fresh_host_def numeric_files_def
        numeric_manifest_parsed numeric_manifest_sorted numeric_manifest_written)
  then have "disk (snd (sortDependencies npm_data (fresh_host numeric_files all_exit_0))) ''my-app/package.json''
       = Some ''{\<newline>  \"dependencies\": {\<newline>    \"9\": \"1.0.0\",\<newline>    \"10\": \"2.0.0\"\<newline>  }\<newline>}\<newline>''"
    by (simp add: writeFileSync_def)
  moreover have "''10'' < ''9''" by simp
  ultimately show ?thesis using numeric_manifest_parsed by simp
qed


end
